theory Spec2Isabelle
  imports Main
begin


section \<open>Request/response messaging on top of postMessage\<close>

text \<open>
  The messaging module keeps one counter, \<open>lastRequestId\<close>, brands every outgoing message
  with the next value of it, and lets the sender wait for the message of type
  \<open>response\<close> that carries the same \<open>requestId\<close>.

  Request ids are JavaScript numbers that hold integers; they are modelled as integers,
  and the one arithmetic operation on them, the increment of the counter, is modelled with
  the rounding of a JavaScript number.
\<close>

subsection \<open>Messages\<close>

text \<open>
  What a \<open>message\<close> event carries in \<open>event.data\<close>, as far as the module reads it: the
  \<open>type\<close> tag, the \<open>requestId\<close> (absent, or not a number, is \<open>None\<close>) and the \<open>response\<close>
  payload.
\<close>

record 'a message_data =
  type :: string
  requestId :: "int option"
  response :: 'a

text \<open>\<open>responseTo(requestId, response)\<close> builds the reply object.\<close>

definition responseTo :: "int \<Rightarrow> 'a \<Rightarrow> 'a message_data" where
  "responseTo rid r = \<lparr>type = ''response'', requestId = Some rid, response = r\<rparr>"

subsection \<open>The request counter and \<open>postMessageExpectReply\<close>\<close>

text \<open>
  An outgoing message is a key-value object. The only key the module writes is
  \<open>requestId\<close>, which holds a number; every other value is left abstract.
\<close>

datatype 'v field = Number int | Opaque 'v

type_synonym 'v outgoing = "string \<rightharpoonup> 'v field"

text \<open>
  The module state: the counter, and the log of \<open>target.postMessage\<close> calls made so far
  (the target and the object posted to it, latest last).
\<close>

record ('t, 'v) messaging =
  lastRequestId :: int
  posted :: "('t \<times> 'v outgoing) list"

definition initial_messaging :: "('t, 'v) messaging" where
  "initial_messaging = \<lparr>lastRequestId = 0, posted = []\<rparr>"

text \<open>
  \<open>++lastRequestId\<close> on a JavaScript number that holds an integer from \<open>0\<close> to \<open>2 ^ 53\<close>.
  Below \<open>2 ^ 53\<close> the sum with one is exact. At \<open>2 ^ 53\<close> the sum is not a JavaScript
  number and is rounded back to \<open>2 ^ 53\<close>, so the counter stays where it is. The counter
  starts at \<open>0\<close> and nothing else writes it, so it never leaves this range.
\<close>

definition increment :: "int \<Rightarrow> int" where
  "increment n = (if n < 2 ^ 53 then n + 1 else n)"

text \<open>
  \<open>postMessageExpectReply(target, message)\<close>: pre-increment the counter, post
  \<open>{...message, requestId}\<close> to the target, return the id.
\<close>

definition postMessageExpectReply ::
  "('t, 'v) messaging \<Rightarrow> 't \<Rightarrow> 'v outgoing \<Rightarrow> int \<times> ('t, 'v) messaging" where
  "postMessageExpectReply s target message =
     (let rid = increment (lastRequestId s)
      in (rid, \<lparr>lastRequestId = rid,
                posted = posted s @ [(target, message(''requestId'' \<mapsto> Number rid))]\<rparr>))"

text \<open>A sequence of calls, one per (target, message) pair, collecting the ids returned.\<close>

fun post_all ::
  "('t, 'v) messaging \<Rightarrow> ('t \<times> 'v outgoing) list \<Rightarrow> int list \<times> ('t, 'v) messaging" where
  "post_all s [] = ([], s)"
| "post_all s ((target, message) # rest) =
     (let (rid, s') = postMessageExpectReply s target message;
          (rids, s'') = post_all s' rest
      in (rid # rids, s''))"

subsection \<open>\<open>awaitReply\<close>\<close>

text \<open>
  \<open>awaitReply\<close> creates a promise, registers \<open>responseHandler\<close> as a \<open>message\<close> listener on
  the target and arms the timer \<open>failOntimeout\<close>. The calls the two callbacks make to
  \<open>resolve\<close> and \<open>reject\<close> are logged in order; the promise is settled by the first of them.
\<close>

datatype 'a settle_call = Resolve 'a | Reject string

datatype 'a promise_state = Pending | Fulfilled 'a | Rejected string

fun settled_as :: "'a settle_call list \<Rightarrow> 'a promise_state" where
  "settled_as [] = Pending"
| "settled_as (Resolve v # _) = Fulfilled v"
| "settled_as (Reject e # _) = Rejected e"

text \<open>
  One pending call of \<open>awaitReply\<close>: the \<open>requestId\<close> it closes over, whether its
  \<open>responseHandler\<close> is still registered on the target, the deadline of \<open>failOntimeout\<close> while
  the timer is armed, and the calls made to \<open>resolve\<close>/\<open>reject\<close>.
\<close>

record 'a waiter =
  awaited :: int
  listening :: bool
  failOntimeout :: "nat option"
  settle_calls :: "'a settle_call list"

text \<open>
  The event loop the target lives in: a clock in milliseconds and the waiters created so
  far.
\<close>

record 'a event_target =
  clock :: nat
  waiters :: "'a waiter list"

definition DEFAULT_RESPONSE_TIMEOUT :: nat where
  "DEFAULT_RESPONSE_TIMEOUT = 25000"

text \<open>
  \<open>responseHandler\<close>: on a message of type \<open>response\<close> with the awaited id, remove the
  listener, clear the timer, resolve with \<open>event.data.response\<close>; otherwise do nothing.
\<close>

definition responseHandler :: "'a waiter \<Rightarrow> 'a message_data \<Rightarrow> 'a waiter" where
  "responseHandler w d =
     (if type d = ''response'' \<and> requestId d = Some (awaited w)
      then w\<lparr>listening := False, failOntimeout := None,
             settle_calls := settle_calls w @ [Resolve (response d)]\<rparr>
      else w)"

text \<open>The timer callback: reject with the timeout error, then remove the listener.\<close>

definition timeout_callback :: "'a waiter \<Rightarrow> 'a waiter" where
  "timeout_callback w =
     w\<lparr>settle_calls := settle_calls w @ [Reject ''Request timed out''],
       listening := False, failOntimeout := None\<rparr>"

text \<open>
  \<open>awaitReply(messageTarget, requestId, timeout)\<close>. The new waiter is the last of the
  target's list, so its index is the length of the list before the call.
\<close>

definition awaitReply :: "'a event_target \<Rightarrow> int \<Rightarrow> nat \<Rightarrow> 'a event_target" where
  "awaitReply tgt rid timeout =
     tgt\<lparr>waiters := waiters tgt @
        [\<lparr>awaited = rid, listening = True, failOntimeout = Some (clock tgt + timeout),
          settle_calls = []\<rparr>]\<rparr>"

text \<open>
  What happens in the event loop: a \<open>message\<close> event is dispatched on the target, or time
  passes. A message is handed to every handler that is still registered. When the clock
  reaches the deadline of an armed timer, its callback runs.
\<close>

datatype 'a event = Message "'a message_data" | Elapse nat

fun advance :: "nat \<Rightarrow> 'a event \<Rightarrow> nat" where
  "advance t (Message d) = t"
| "advance t (Elapse n) = t + n"

fun on_event :: "nat \<Rightarrow> 'a event \<Rightarrow> 'a waiter \<Rightarrow> 'a waiter" where
  "on_event t (Message d) w = (if listening w then responseHandler w d else w)"
| "on_event t (Elapse n) w =
     (case failOntimeout w of
        None \<Rightarrow> w
      | Some deadline \<Rightarrow> if deadline \<le> t then timeout_callback w else w)"

definition step :: "'a event_target \<Rightarrow> 'a event \<Rightarrow> 'a event_target" where
  "step tgt e =
     (let t = advance (clock tgt) e
      in \<lparr>clock = t, waiters = map (on_event t e) (waiters tgt)\<rparr>)"

definition run :: "'a event_target \<Rightarrow> 'a event list \<Rightarrow> 'a event_target" where
  "run tgt es = foldl step tgt es"

text \<open>The state of the promise returned by the \<open>k\<close>-th call of \<open>awaitReply\<close>.\<close>

definition promise_of :: "'a event_target \<Rightarrow> nat \<Rightarrow> 'a promise_state" where
  "promise_of tgt k = settled_as (settle_calls (waiters tgt ! k))"

text \<open>Notions used to state the properties of a run of events.\<close>

fun elapsed :: "'a event list \<Rightarrow> nat" where
  "elapsed [] = 0"
| "elapsed (e # es) = advance 0 e + elapsed es"

fun is_reply_for :: "int \<Rightarrow> 'a event \<Rightarrow> bool" where
  "is_reply_for rid (Message d) = (type d = ''response'' \<and> requestId d = Some rid)"
| "is_reply_for rid (Elapse n) = False"

fun no_reply_for :: "int \<Rightarrow> 'a event list \<Rightarrow> bool" where
  "no_reply_for rid [] = True"
| "no_reply_for rid (e # es) = (\<not> is_reply_for rid e \<and> no_reply_for rid es)"

text \<open>One waiter followed through a list of events, the clock starting at \<open>t\<close>.\<close>

text \<open>
  Inputs for the counter at the end of its range: the message of the module's own usage
  example, and a state whose counter is the largest integer below \<open>2 ^ 53\<close>.
\<close>

definition version_request :: "string outgoing" where
  "version_request = [''type'' \<mapsto> Opaque ''get_php_version'']"

definition last_safe_messaging :: "(nat, string) messaging" where
  "last_safe_messaging = \<lparr>lastRequestId = 9007199254740991, posted = []\<rparr>"

fun waiter_run :: "nat \<Rightarrow> 'a waiter \<Rightarrow> 'a event list \<Rightarrow> 'a waiter" where
  "waiter_run t w [] = w"
| "waiter_run t w (e # es) = waiter_run (advance t e) (on_event (advance t e) e w) es"

fun time_passes :: "'a event list \<Rightarrow> bool" where
  "time_passes [] = False"
| "time_passes (Message d # es) = time_passes es"
| "time_passes (Elapse n # es) = True"

section \<open>Paths, URLs and scopes\<close>

subsection \<open>The string methods the service worker uses\<close>

text \<open>
  \<open>s.startsWith(p)\<close>, \<open>s.endsWith(p)\<close>, \<open>s.includes(p)\<close> (here \<open>includes_str\<close>), \<open>s.split(c)\<close> for a
  one-character separator and \<open>parts.join(c)\<close>, on strings as lists of characters.
  \<open>split\<close> never returns the empty array: the empty string splits into one empty segment.
\<close>

fun startsWith :: "string \<Rightarrow> string \<Rightarrow> bool" where
  "startsWith s [] = True"
| "startsWith [] (c # cs) = False"
| "startsWith (x # xs) (c # cs) = (x = c \<and> startsWith xs cs)"

definition endsWith :: "string \<Rightarrow> string \<Rightarrow> bool" where
  "endsWith s p = startsWith (rev s) (rev p)"

fun includes_str :: "string \<Rightarrow> string \<Rightarrow> bool" where
  "includes_str [] p = (p = [])"
| "includes_str (x # xs) p = (startsWith (x # xs) p \<or> includes_str xs p)"

fun split :: "string \<Rightarrow> char \<Rightarrow> string list" where
  "split [] sep = [[]]"
| "split (x # xs) sep =
     (if x = sep then [] # split xs sep
      else (case split xs sep of [] \<Rightarrow> [[x]] | seg # segs \<Rightarrow> (x # seg) # segs))"

fun join :: "string list \<Rightarrow> char \<Rightarrow> string" where
  "join [] sep = []"
| "join [s] sep = s"
| "join (s # t # rest) sep = s @ sep # join (t # rest) sep"

subsection \<open>The default forwarding test\<close>

text \<open>
  \<open>seemsLikeAPHPServerPath\<close> and its two helpers. \<open>path.split('/').pop()\<close> is the last
  element of an array that is never empty.
\<close>

definition seemsLikeAPHPFile :: "string \<Rightarrow> bool" where
  "seemsLikeAPHPFile path = (endsWith path ''.php'' \<or> includes_str path ''.php/'')"

definition seemsLikeADirectoryRoot :: "string \<Rightarrow> bool" where
  "seemsLikeADirectoryRoot path =
     (let lastSegment = last (split path CHR ''/'') in \<not> includes_str lastSegment ''.'')"

definition seemsLikeAPHPServerPath :: "string \<Rightarrow> bool" where
  "seemsLikeAPHPServerPath path = (seemsLikeAPHPFile path \<or> seemsLikeADirectoryRoot path)"

subsection \<open>URLs\<close>

text \<open>
  A parsed URL, as the \<open>URL\<close> class exposes it: the origin, the \<open>pathname\<close>, the query
  (\<open>search\<close>) and the fragment (\<open>hash\<close>). The pathname of an http(s) URL always starts with
  a slash.
\<close>

record url =
  origin :: string
  pathname :: string
  search :: string
  hash :: string

definition wellformed :: "url \<Rightarrow> bool" where
  "wellformed u = startsWith (pathname u) ''/''"

text \<open>
  Modelled from the spec: \<open>getPathQueryFragment\<close> is imported from the module \<open>utils\<close>,
  which is not among the sources. The spec says the forwarded message carries
  path+query+fragment.
\<close>

definition getPathQueryFragment :: "url \<Rightarrow> string" where
  "getPathQueryFragment u = pathname u @ search u @ hash u"

subsection \<open>The scope codec\<close>

text \<open>
  Modelled from the spec: the four functions are imported from the module \<open>scope\<close>, which
  is not among the sources. The spec embeds the token as a distinguished leading path
  segment, \<open>/scope:<token>/<original-path>\<close>; the service worker's comment says a scoped
  URL starts with \<open>/scope:\<close>, and the development server strips the segment with
  \<open>'/' + url.split('/').slice(2).join('/')\<close>.
\<close>

definition isURLScoped :: "url \<Rightarrow> bool" where
  "isURLScoped u = startsWith (pathname u) ''/scope:''"

text \<open>
  Modelled from the spec: \<open>getScope(url)\<close> is the token or absent. The token is what
  follows \<open>scope:\<close> in the first path segment.
\<close>

definition getURLScope :: "url \<Rightarrow> string option" where
  "getURLScope u =
     (if isURLScoped u
      then (case split (pathname u) CHR ''/'' of
              _ # segment # _ \<Rightarrow> Some (drop 6 segment)
            | _ \<Rightarrow> None)
      else None)"

text \<open>
  Modelled from the spec: \<open>setScope(url, token)\<close> embeds the token, and fails or is a no-op
  (the implementation's choice) if the URL is already scoped. Here it is a no-op.
\<close>

definition setURLScope :: "url \<Rightarrow> string \<Rightarrow> url" where
  "setURLScope u token =
     (if isURLScoped u then u else u\<lparr>pathname := ''/scope:'' @ token @ pathname u\<rparr>)"

text \<open>
  Modelled from the spec: \<open>removeScope(url)\<close> strips an existing token and is the identity
  on an unscoped URL.
\<close>

definition removeURLScope :: "url \<Rightarrow> url" where
  "removeURLScope u =
     (if isURLScoped u
      then u\<lparr>pathname := CHR ''/'' # join (drop 2 (split (pathname u) CHR ''/'')) CHR ''/''\<rparr>
      else u)"

section \<open>The service worker\<close>

subsection \<open>Requests and \<open>cloneRequest\<close>\<close>

text \<open>
  A \<open>Request\<close>, with the attributes \<open>cloneRequest\<close> copies. \<open>request_url\<close> is
  \<open>new URL(request.url)\<close>; \<open>request_headers\<close> lists the entries of \<open>request.headers\<close> (names
  in lower case, as \<open>Headers\<close> keeps them); \<open>request_body\<close> is \<open>None\<close> for a request without
  a body.
\<close>

record request =
  request_url :: url
  request_method :: string
  request_headers :: "(string \<times> string) list"
  request_body :: "string option"
  referrer :: string
  referrerPolicy :: string
  mode :: string
  credentials :: string
  cache :: string
  redirect :: string
  integrity :: string

text \<open>\<open>request.blob()\<close>: the bytes of the body, none for a request without a body.\<close>

definition blob :: "request \<Rightarrow> string" where
  "blob r = (case request_body r of None \<Rightarrow> [] | Some b \<Rightarrow> b)"

text \<open>
  The \<open>overrides\<close> object, with the two keys \<open>cloneRequest\<close> itself reads: \<open>url\<close> and
  \<open>body\<close> (\<open>None\<close> when the key is absent; the service worker passes \<open>url\<close> only).
\<close>

record overrides =
  override_url :: "url option"
  override_body :: "string option option"

definition cloneRequest :: "request \<Rightarrow> overrides \<Rightarrow> request" where
  "cloneRequest r ov =
     (let b = (if request_method r \<in> set [''GET'', ''HEAD''] \<or> override_body ov \<noteq> None
               then None else Some (blob r))
      in \<lparr>request_url = (case override_url ov of Some u \<Rightarrow> u | None \<Rightarrow> request_url r),
          request_method = request_method r,
          request_headers = request_headers r,
          request_body = (case override_body ov of Some b' \<Rightarrow> b' | None \<Rightarrow> b),
          referrer = referrer r,
          referrerPolicy = referrerPolicy r,
          mode = (if mode r = ''navigate'' then ''same-origin'' else mode r),
          credentials = credentials r,
          cache = cache r,
          redirect = redirect r,
          integrity = integrity r\<rparr>)"

subsection \<open>The platform\<close>

text \<open>
  What the browser computes and the service worker only calls: the \<open>URL\<close> constructor
  (\<open>None\<close> where it throws), the two body readers \<open>request.clone().formData()\<close> and
  \<open>request.clone().json()\<close> (\<open>Inl\<close> the error they reject with), and the header list that
  a \<open>Response\<close> builds from the \<open>headers\<close> of its \<open>init\<close> argument (\<open>Inl\<close> the error where it
  refuses a name or a value). A form entry is a string or a \<open>File\<close>, kept opaque.
\<close>

datatype form_entry = Field string | File string

record 'j platform =
  URL :: "string \<Rightarrow> url option"
  formData :: "request \<Rightarrow> string + (string \<times> form_entry) list"
  json :: "request \<Rightarrow> string + 'j"
  Headers :: "(string \<times> string) list \<Rightarrow> string + (string \<times> string) list"

text \<open>
  \<open>object[key] = value\<close> on an object created by \<open>{}\<close>. Every key becomes a property of
  the object, except \<open>__proto__\<close>: that assignment goes to the prototype setter and leaves
  the object without a property of that name.
\<close>

definition set_property :: "(string \<rightharpoonup> 'v) \<Rightarrow> string \<Rightarrow> 'v \<Rightarrow> (string \<rightharpoonup> 'v)" where
  "set_property object key v = (if key = ''__proto__'' then object else object(key \<mapsto> v))"

subsection \<open>\<open>parsePost\<close>\<close>

text \<open>
  The result of \<open>parsePost\<close>: \<open>post\<close> is \<open>undefined\<close>, the object of form fields, or the
  parsed JSON document; \<open>files\<close> is \<open>undefined\<close> (\<open>None\<close>) or the object of uploaded files.
\<close>

datatype 'j post_data = Undefined | Fields "string \<rightharpoonup> string" | Document 'j

record 'j parsed_post =
  post :: "'j post_data"
  files :: "(string \<rightharpoonup> string) option"

text \<open>
  The loop over \<open>formData.keys()\<close>: \<open>formData.get(key)\<close> is the first entry of that name; a
  \<open>File\<close> goes to \<open>files\<close>, anything else to \<open>post\<close>. (Every key is the name of an entry,
  so the lookup finds one.)
\<close>

definition form_fields ::
  "(string \<times> form_entry) list \<Rightarrow> (string \<rightharpoonup> string) \<times> (string \<rightharpoonup> string)" where
  "form_fields entries =
     foldl (\<lambda>(post, files) key.
              case map_of entries key of
                Some (File f) \<Rightarrow> (post, set_property files key f)
              | Some (Field v) \<Rightarrow> (set_property post key v, files)
              | None \<Rightarrow> (post, files))
       (Map.empty, Map.empty) (map fst entries)"

text \<open>
  \<open>parsePost\<close>: nothing to parse unless the method is \<open>POST\<close>; then form data, whose
  failure is caught and dropped; then JSON, whose failure is not caught and leaves the
  function as its error.
\<close>

definition parsePost :: "'j platform \<Rightarrow> request \<Rightarrow> string + 'j parsed_post" where
  "parsePost api r =
     (if request_method r \<noteq> ''POST'' then Inr \<lparr>post = Undefined, files = None\<rparr>
      else case formData api r of
             Inr entries \<Rightarrow>
               Inr \<lparr>post = Fields (fst (form_fields entries)),
                    files = Some (snd (form_fields entries))\<rparr>
           | Inl _ \<Rightarrow>
               (case json api r of
                  Inr document \<Rightarrow> Inr \<lparr>post = Document document, files = Some Map.empty\<rparr>
                | Inl e \<Rightarrow> Inl e))"

subsection \<open>Broadcasting to the clients\<close>

text \<open>The message the service worker sends for a request it forwards.\<close>

record 'j php_request =
  path :: string
  php_method :: string
  php_files :: "(string \<rightharpoonup> string) option"
  POST :: "'j post_data"
  php_headers :: "string \<rightharpoonup> string"

record 'j http_request_message =
  message_type :: string
  scope :: "string option"
  php_request :: "'j php_request"
  message_requestId :: "int option"

text \<open>
  What the PHP side answers in the \<open>response\<close> field of its reply. The body is a string or
  bytes (a typed array); a string is kept as its UTF-8 bytes.
\<close>

datatype php_body = Text string | Binary string

record php_response =
  statusCode :: int
  headers :: "(string \<times> string) list"
  body :: php_body

text \<open>
  The service worker's state: the request counter, the controlled clients
  (\<open>self.clients.matchAll()\<close>), the messages posted to them so far, and the worker's own
  global scope \<open>self\<close> as a message target.
\<close>

record ('c, 'j) service_worker =
  requestCounter :: int
  clients :: "'c list"
  client_messages :: "('c \<times> 'j http_request_message) list"
  self :: "php_response event_target"

text \<open>
  Modelled from the spec: \<open>getNextRequestId\<close> is imported from the messaging module, whose
  source has the counter only inside \<open>postMessageExpectReply\<close>. The spec's \<open>nextId()\<close> returns
  an integer greater than every one returned before: the counter grows by one and its new
  value is returned.
\<close>

definition getNextRequestId :: "('c, 'j) service_worker \<Rightarrow> int \<times> ('c, 'j) service_worker" where
  "getNextRequestId sw =
     (requestCounter sw + 1, sw\<lparr>requestCounter := requestCounter sw + 1\<rparr>)"

text \<open>\<open>broadcastMessageExpectReply\<close>: one id, \<open>{...message, requestId}\<close> to every client.\<close>

definition broadcastMessageExpectReply ::
  "('c, 'j) service_worker \<Rightarrow> 'j http_request_message \<Rightarrow> int \<times> ('c, 'j) service_worker" where
  "broadcastMessageExpectReply sw message =
     (let (rid, sw') = getNextRequestId sw
      in (rid, sw'\<lparr>client_messages := client_messages sw' @
                 map (\<lambda>client. (client, message\<lparr>message_requestId := Some rid\<rparr>)) (clients sw')\<rparr>))"

subsection \<open>The fetch listener\<close>

text \<open>
  What the listener does to a fetch event. \<open>respondWith\<close> is the promise handed to
  \<open>event.respondWith\<close>, if any. Both promises are built as
  \<open>new Promise(async (accept) => ...)\<close>: the executor receives \<open>accept\<close> only, so the promise
  is settled by the first call of \<open>accept\<close> and by nothing else, whereas an exception in the
  executor's asynchronous body rejects the executor's own, unobserved promise. The record
  keeps the calls of \<open>accept\<close> and how the executor ended. \<open>accept(fetch(r))\<close> resolves the
  promise to the outcome of fetching \<open>r\<close>.
\<close>

record http_response =
  status :: int
  http_headers :: "(string \<times> string) list"
  http_body :: string

datatype accepted = Fetch request | Response http_response

text \<open>
  \<open>new Response(body, {headers, status})\<close> for a body that is a string or bytes, step by
  step as the constructor works. The status is converted to an unsigned 16-bit integer
  and must lie between 200 and 599, else a \<open>RangeError\<close> is thrown. The headers are filled
  in. A body is present, so a null-body status (204, 205 or 304; 101 and 103 are out of
  range already) throws a \<open>TypeError\<close>. A string body has the type
  \<open>text/plain;charset=UTF-8\<close>, which is appended as \<open>Content-Type\<close> unless the headers hold
  a \<open>Content-Type\<close> under any spelling; bytes have no type.
\<close>

definition lower :: "string \<Rightarrow> string" where
  "lower name =
     map (\<lambda>c. case map_of (zip ''ABCDEFGHIJKLMNOPQRSTUVWXYZ'' ''abcdefghijklmnopqrstuvwxyz'') c of
                None \<Rightarrow> c | Some l \<Rightarrow> l) name"

definition contains_header :: "(string \<times> string) list \<Rightarrow> string \<Rightarrow> bool" where
  "contains_header list name = (lower name \<in> set (map (lower \<circ> fst) list))"

fun body_bytes :: "php_body \<Rightarrow> string" where
  "body_bytes (Text s) = s"
| "body_bytes (Binary b) = b"

fun body_type :: "php_body \<Rightarrow> string option" where
  "body_type (Text s) = Some ''text/plain;charset=UTF-8''"
| "body_type (Binary b) = None"

definition new_Response ::
  "'j platform \<Rightarrow> php_body \<Rightarrow> (string \<times> string) list \<Rightarrow> int \<Rightarrow> string + http_response" where
  "new_Response api b init_headers init_status =
     (let s = init_status mod 65536
      in if s < 200 \<or> 599 < s then Inl ''RangeError''
         else case Headers api init_headers of
                Inl e \<Rightarrow> Inl e
              | Inr list \<Rightarrow>
                  if s \<in> set [204, 205, 304] then Inl ''TypeError''
                  else Inr \<lparr>status = s,
                            http_headers =
                              (case body_type b of
                                 Some t \<Rightarrow>
                                   if contains_header list ''Content-Type'' then list
                                   else list @ [(''Content-Type'', t)]
                               | None \<Rightarrow> list),
                            http_body = body_bytes b\<rparr>)"

datatype executor = Completed | Suspended | Threw string

record respond_promise =
  accept_calls :: "accepted list"
  executor :: executor

record handled =
  defaultPrevented :: bool
  respondWith :: "respond_promise option"
  fetches :: "request list"

definition respondWith_state :: "respond_promise \<Rightarrow> accepted promise_state" where
  "respondWith_state p = settled_as (map Resolve (accept_calls p))"

text \<open>
  The configuration: the test \<open>shouldForwardRequestToPHPServer\<close>, or \<open>None\<close> for the
  default, which looks at the path of the unscoped URL.
\<close>

type_synonym config = "(request \<Rightarrow> url \<Rightarrow> bool) option"

definition shouldForwardRequestToPHPServer :: "config \<Rightarrow> request \<Rightarrow> url \<Rightarrow> bool" where
  "shouldForwardRequestToPHPServer config r unscopedUrl =
     (case config of
        None \<Rightarrow> seemsLikeAPHPServerPath (pathname unscopedUrl)
      | Some test \<Rightarrow> test r unscopedUrl)"

text \<open>
  Lines 491 to 502: the request's URL, with the scope of the referer put on it when it has
  none of its own and the \<open>referer\<close> header parses to a scoped URL.
\<close>

definition resolve_scope :: "'j platform \<Rightarrow> request \<Rightarrow> url" where
  "resolve_scope api r =
     (let url = request_url r
      in if \<not> isURLScoped url
         then (case URL api (case map_of (request_headers r) ''referer'' of
                               None \<Rightarrow> [] | Some v \<Rightarrow> v) of
                 None \<Rightarrow> url
               | Some referer \<Rightarrow>
                   if isURLScoped referer
                   then (case getURLScope referer of
                           Some token \<Rightarrow> setURLScope url token
                         | None \<Rightarrow> url)
                   else url)
         else url)"

text \<open>
  Lines 526 to 587, the forwarding branch, followed through the events \<open>evs\<close> that \<open>self\<close>
  sees after the request was broadcast. \<open>parsePost\<close> is awaited outside the \<open>try\<close>; the
  \<open>catch\<close> around the broadcast and \<open>awaitReply\<close> logs the error and throws it again;
  the \<open>Response\<close> is constructed after the \<open>try\<close>, so what its constructor throws ends the
  executor as well.
\<close>

definition forward_to_php ::
  "'j platform \<Rightarrow> ('c, 'j) service_worker \<Rightarrow> request \<Rightarrow> url \<Rightarrow> php_response event list \<Rightarrow>
     handled \<times> ('c, 'j) service_worker" where
  "forward_to_php api sw r url evs =
     (case parsePost api r of
        Inl e \<Rightarrow>
          (\<lparr>defaultPrevented = True,
            respondWith = Some \<lparr>accept_calls = [], executor = Threw e\<rparr>,
            fetches = []\<rparr>, sw)
      | Inr parsed \<Rightarrow>
          (let requestHeaders =
                 foldl (\<lambda>m (name, v). set_property m name v) Map.empty (request_headers r);
               requestedPath = getPathQueryFragment url;
               message = \<lparr>message_type = ''HTTPRequest'',
                          scope = getURLScope url,
                          php_request = \<lparr>path = requestedPath, php_method = request_method r,
                                          php_files = files parsed, POST = post parsed,
                                          php_headers = requestHeaders\<rparr>,
                          message_requestId = None\<rparr>;
               (rid, sw') = broadcastMessageExpectReply sw message;
               k = length (waiters (self sw'));
               after = run (awaitReply (self sw') rid DEFAULT_RESPONSE_TIMEOUT) evs;
               sw'' = sw'\<lparr>self := after\<rparr>
           in case promise_of after k of
                Pending \<Rightarrow>
                  (\<lparr>defaultPrevented = True,
                    respondWith = Some \<lparr>accept_calls = [], executor = Suspended\<rparr>,
                    fetches = []\<rparr>, sw'')
              | Rejected e \<Rightarrow>
                  (\<lparr>defaultPrevented = True,
                    respondWith = Some \<lparr>accept_calls = [], executor = Threw e\<rparr>,
                    fetches = []\<rparr>, sw'')
              | Fulfilled phpResponse \<Rightarrow>
                  (case new_Response api (body phpResponse) (headers phpResponse)
                          (statusCode phpResponse) of
                     Inl e \<Rightarrow>
                       (\<lparr>defaultPrevented = True,
                         respondWith = Some \<lparr>accept_calls = [], executor = Threw e\<rparr>,
                         fetches = []\<rparr>, sw'')
                   | Inr made \<Rightarrow>
                       (\<lparr>defaultPrevented = True,
                         respondWith = Some \<lparr>accept_calls = [Response made],
                                             executor = Completed\<rparr>,
                         fetches = []\<rparr>, sw''))))"

text \<open>The listener installed for \<open>fetch\<close> events by \<open>initializeServiceWorker(config)\<close>.\<close>

definition fetch_listener ::
  "config \<Rightarrow> 'j platform \<Rightarrow> ('c, 'j) service_worker \<Rightarrow> request \<Rightarrow> php_response event list \<Rightarrow>
     handled \<times> ('c, 'j) service_worker" where
  "fetch_listener config api sw r evs =
     (let url = resolve_scope api r;
          unscopedUrl = removeURLScope url
      in if \<not> isURLScoped url \<or> \<not> shouldForwardRequestToPHPServer config r unscopedUrl
         then (if isURLScoped url
               then (let newRequest = cloneRequest r \<lparr>override_url = Some unscopedUrl,
                                                       override_body = None\<rparr>
                     in (\<lparr>defaultPrevented = True,
                          respondWith = Some \<lparr>accept_calls = [Fetch newRequest],
                                              executor = Completed\<rparr>,
                          fetches = [newRequest]\<rparr>, sw))
               else (\<lparr>defaultPrevented = False, respondWith = None, fetches = []\<rparr>, sw))
         else forward_to_php api sw r url evs)"

subsection \<open>Concrete inputs\<close>

text \<open>
  The inputs of the scenarios. The platform is given on the values the scenarios hand it
  and refuses every other one: its \<open>URL\<close> constructor parses one referer (and throws on the
  empty string of a request without one); \<open>formData()\<close> reads the body \<open>a=1\<close> of a request
  whose \<open>content-type\<close> is \<open>application/x-www-form-urlencoded\<close> and rejects a request with
  another or no content type; \<open>json()\<close> reads the body \<open>{}\<close> and rejects a body that is empty
  or XML; the header list of a \<open>Response\<close> is the list given, for no headers and for the one
  header \<open>content-type: text/html\<close>. Then a worker with two clients that has not sent
  anything yet, and requests for a scoped image, for a scoped script, for a stylesheet that
  is scoped through its referer only, and two posts to the scoped script, one with an XML
  body and one without a body.
\<close>

definition example_platform :: "string platform" where
  "example_platform =
     \<lparr>URL = (\<lambda>s. if s = ''http://localhost/scope:abc/index.php''
                  then Some \<lparr>origin = ''http://localhost'', pathname = ''/scope:abc/index.php'',
                              search = [], hash = []\<rparr>
                  else None),
      formData = (\<lambda>r. if map_of (request_headers r) ''content-type'' =
                            Some ''application/x-www-form-urlencoded'' \<and>
                          request_body r = Some ''a=1''
                       then Inr [(''a'', Field ''1'')] else Inl ''TypeError''),
      json = (\<lambda>r. if request_body r = Some ''{}'' then Inr ''{}'' else Inl ''SyntaxError''),
      Headers = (\<lambda>list. if list = [] \<or> list = [(''content-type'', ''text/html'')]
                         then Inr list else Inl ''TypeError'')\<rparr>"

definition example_worker :: "(nat, string) service_worker" where
  "example_worker =
     \<lparr>requestCounter = 0, clients = [0, 1], client_messages = [],
      self = \<lparr>clock = 0, waiters = []\<rparr>\<rparr>"

definition example_request :: "string \<Rightarrow> string \<Rightarrow> string \<Rightarrow> string option \<Rightarrow> request" where
  "example_request m request_mode p b =
     \<lparr>request_url = \<lparr>origin = ''http://localhost'', pathname = p, search = [], hash = []\<rparr>,
      request_method = m, request_headers = [], request_body = b, referrer = [],
      referrerPolicy = ''strict-origin-when-cross-origin'', mode = request_mode,
      credentials = ''include'', cache = ''default'', redirect = ''follow'', integrity = []\<rparr>"

definition logo_request :: request where
  "logo_request = example_request ''GET'' ''navigate'' ''/scope:abc/logo.png'' None"

definition index_request :: request where
  "index_request = example_request ''GET'' ''navigate'' ''/scope:abc/index.php'' None"

definition xml_post_request :: request where
  "xml_post_request =
     (example_request ''POST'' ''cors'' ''/scope:abc/index.php'' (Some ''<xml/>''))
       \<lparr>request_headers := [(''content-type'', ''text/xml'')]\<rparr>"

definition empty_post_request :: request where
  "empty_post_request = example_request ''POST'' ''cors'' ''/scope:abc/index.php'' None"

definition style_request :: request where
  "style_request =
     (example_request ''GET'' ''no-cors'' ''/style.css'' None)
       \<lparr>request_headers := [(''referer'', ''http://localhost/scope:abc/index.php'')],
        referrer := ''http://localhost/scope:abc/index.php''\<rparr>"


section \<open>Properties of the messaging module\<close>

subsection \<open>Runs of events, waiter by waiter\<close>


lemma clock_run: "clock (run tgt es) = clock tgt + elapsed es"
  unfolding run_def
proof (induction es arbitrary: tgt)
  case Nil
  show ?case by simp
next
  case (Cons e es)
  have "clock (step tgt e) = advance (clock tgt) e" by (simp add: step_def Let_def)
  moreover have "advance (clock tgt) e = clock tgt + advance 0 e" by (cases e) simp_all
  ultimately show ?case using Cons.IH [of "step tgt e"] by simp
qed

lemma waiters_run:
  "waiters (run tgt es) = map (\<lambda>w. waiter_run (clock tgt) w es) (waiters tgt)"
  unfolding run_def
proof (induction es arbitrary: tgt)
  case Nil
  show ?case by simp
next
  case (Cons e es)
  show ?case using Cons.IH [of "step tgt e"] by (simp add: step_def Let_def)
qed

lemma waiters_awaitReply:
  "waiters (awaitReply tgt rid timeout) ! length (waiters tgt) =
     \<lparr>awaited = rid, listening = True, failOntimeout = Some (clock tgt + timeout), settle_calls = []\<rparr>"
  by (simp add: awaitReply_def)

lemma clock_awaitReply: "clock (awaitReply tgt rid timeout) = clock tgt"
  by (simp add: awaitReply_def)

lemma length_awaitReply: "length (waiters (awaitReply tgt rid timeout)) = Suc (length (waiters tgt))"
  by (simp add: awaitReply_def)

lemma awaited_waiter_run:
  "waiters (run (awaitReply tgt rid timeout) es) ! length (waiters tgt) =
     waiter_run (clock tgt)
       \<lparr>awaited = rid, listening = True, failOntimeout = Some (clock tgt + timeout), settle_calls = []\<rparr> es"
  by (simp add: waiters_run length_awaitReply clock_awaitReply waiters_awaitReply)

lemma on_event_other:
  "requestId d \<noteq> Some (awaited w) \<or> type d \<noteq> ''response'' \<Longrightarrow> on_event t (Message d) w = w"
  by (auto simp: responseHandler_def)

lemma waiter_run_append:
  "waiter_run t w (es @ fs) = waiter_run (t + elapsed es) (waiter_run t w es) fs"
proof (induction es arbitrary: t w)
  case Nil show ?case by simp
next
  case (Cons e es)
  have "advance t e = t + advance 0 e" by (cases e) simp_all
  then show ?case using Cons.IH by (simp add: add.assoc)
qed

lemma waiter_run_waiting:
  "listening w \<Longrightarrow> failOntimeout w = Some deadline \<Longrightarrow> awaited w = rid \<Longrightarrow>
   no_reply_for rid es \<Longrightarrow>
   t + elapsed es < deadline \<Longrightarrow> waiter_run t w es = w"
proof (induction es arbitrary: t)
  case Nil show ?case by simp
next
  case (Cons e es)
  have same: "on_event (advance t e) e w = w"
  proof (cases e)
    case (Message d)
    with Cons.prems show ?thesis by (auto simp: responseHandler_def)
  next
    case (Elapse n)
    with Cons.prems show ?thesis by simp
  qed
  have "advance t e + elapsed es < deadline" using Cons.prems(5) by (cases e) simp_all
  with Cons same show ?case by simp
qed

lemma waiter_run_settled:
  "\<not> listening w \<Longrightarrow> failOntimeout w = None \<Longrightarrow> waiter_run t w es = w"
proof (induction es arbitrary: t)
  case Nil show ?case by simp
next
  case (Cons e es)
  have "on_event (advance t e) e w = w" using Cons.prems by (cases e) simp_all
  with Cons show ?case by simp
qed


lemma waiter_run_resolves:
  assumes "listening w" "failOntimeout w = Some deadline" "awaited w = rid"
    and "no_reply_for rid pre" "t + elapsed pre < deadline"
    and "type d = ''response''" "requestId d = Some rid"
  shows "waiter_run t w (pre @ Message d # later) =
           w\<lparr>listening := False, failOntimeout := None,
             settle_calls := settle_calls w @ [Resolve (response d)]\<rparr>"
proof -
  have "waiter_run t w pre = w"
    using assms(1-5) by (rule waiter_run_waiting)
  then have "waiter_run t w (pre @ Message d # later) =
      waiter_run (t + elapsed pre) (responseHandler w d) later"
    using assms(1) by (simp add: waiter_run_append)
  also have "responseHandler w d =
      w\<lparr>listening := False, failOntimeout := None,
        settle_calls := settle_calls w @ [Resolve (response d)]\<rparr>"
    using assms(3,6,7) by (simp add: responseHandler_def)
  finally show ?thesis by (simp add: waiter_run_settled)
qed


lemma elapsed_time_passes: "0 < elapsed es \<Longrightarrow> time_passes es"
proof (induction es)
  case Nil then show ?case by simp
next
  case (Cons e es) then show ?case by (cases e) simp_all
qed

lemma timeout_callback_settled:
  "\<not> listening (timeout_callback w)" "failOntimeout (timeout_callback w) = None"
  by (simp_all add: timeout_callback_def)

lemma waiter_run_times_out:
  assumes "listening w" "failOntimeout w = Some deadline" "awaited w = rid"
    and "no_reply_for rid pre" "deadline \<le> t + elapsed pre" "time_passes pre"
  shows "waiter_run t w (pre @ later) = timeout_callback w"
  using assms(4-6)
proof (induction pre arbitrary: t)
  case Nil then show ?case by simp
next
  case (Cons e es)
  show ?case
  proof (cases e)
    case (Message d)
    then have "on_event (advance t e) e w = w"
      using Cons.prems(1) assms(1,3) by (auto simp: responseHandler_def)
    moreover have "waiter_run t w (es @ later) = timeout_callback w"
      using Cons.IH [of t] Cons.prems Message by simp
    ultimately show ?thesis using Message by simp
  next
    case (Elapse n)
    show ?thesis
    proof (cases "deadline \<le> t + n")
      case True
      then have "on_event (advance t e) e w = timeout_callback w"
        using Elapse assms(2) by simp
      then show ?thesis
        using Elapse by (simp add: waiter_run_settled timeout_callback_settled)
    next
      case False
      then have same: "on_event (advance t e) e w = w"
        using Elapse assms(2) by simp
      have "0 < elapsed es" using False Cons.prems(2) Elapse by simp
      then have "time_passes es" by (rule elapsed_time_passes)
      then have "waiter_run (t + n) w (es @ later) = timeout_callback w"
        using Cons.IH [of "t + n"] Cons.prems Elapse by (simp add: add.assoc)
      then show ?thesis using Elapse same by simp
    qed
  qed
qed

lemma on_event_once:
  assumes "listening w = (settle_calls w = [])" "listening w = (failOntimeout w \<noteq> None)"
    and "length (settle_calls w) \<le> 1"
  shows "listening (on_event t e w) = (settle_calls (on_event t e w) = [])"
    and "listening (on_event t e w) = (failOntimeout (on_event t e w) \<noteq> None)"
    and "length (settle_calls (on_event t e w)) \<le> 1"
    and "awaited (on_event t e w) = awaited w"
  using assms
  by (cases e; auto simp: responseHandler_def timeout_callback_def split: option.splits)+

lemma waiter_run_once:
  assumes "listening w = (settle_calls w = [])" "listening w = (failOntimeout w \<noteq> None)"
    and "length (settle_calls w) \<le> 1"
  shows "listening (waiter_run t w es) = (settle_calls (waiter_run t w es) = []) \<and>
         listening (waiter_run t w es) = (failOntimeout (waiter_run t w es) \<noteq> None) \<and>
         length (settle_calls (waiter_run t w es)) \<le> 1"
  using assms
proof (induction es arbitrary: t w)
  case Nil then show ?case by simp
next
  case (Cons e es)
  let ?w = "on_event (advance t e) e w"
  have "listening ?w = (settle_calls ?w = [])" "listening ?w = (failOntimeout ?w \<noteq> None)"
    "length (settle_calls ?w) \<le> 1"
    using on_event_once [OF Cons.prems] by blast+
  then show ?case
    unfolding waiter_run.simps by (rule Cons.IH)
qed

lemma increment_below: "n < 2 ^ 53 \<Longrightarrow> increment n = n + 1"
  by (simp add: increment_def)

lemma post_all_ids:
  "lastRequestId s + int (length ms) \<le> 2 ^ 53 \<Longrightarrow>
     fst (post_all s ms) = map (\<lambda>i. lastRequestId s + 1 + int i) [0..<length ms]"
proof (induction ms arbitrary: s)
  case Nil show ?case by simp
next
  case (Cons m ms)
  obtain target message where m: "m = (target, message)" by (cases m)
  let ?s' = "snd (postMessageExpectReply s target message)"
  have below: "lastRequestId s < 2 ^ 53" using Cons.prems by simp
  have l: "lastRequestId ?s' = lastRequestId s + 1"
    by (simp add: postMessageExpectReply_def Let_def increment_below [OF below])
  have room: "lastRequestId ?s' + int (length ms) \<le> 2 ^ 53" using Cons.prems l by simp
  have "fst (post_all s (m # ms)) = (lastRequestId s + 1) # fst (post_all ?s' ms)"
    by (simp add: m postMessageExpectReply_def Let_def increment_below [OF below] split: prod.splits)
  also have "\<dots> = (lastRequestId s + 1) # map (\<lambda>i. lastRequestId s + 1 + int (Suc i)) [0..<length ms]"
    using Cons.IH [OF room] l by (simp add: add.assoc)
  also have "\<dots> = map (\<lambda>i. lastRequestId s + 1 + int i) [0..<length (m # ms)]"
    by (simp add: upt_conv_Cons map_Suc_upt [symmetric] del: upt_Suc)
  finally show ?case .
qed

text \<open>
  After \<open>n\<close> calls the counter has grown by \<open>n\<close>, as long as that stays within \<open>2 ^ 53\<close>;
  so \<open>2 ^ 53 - 1\<close> calls from the initial state lead to the counter \<open>2 ^ 53 - 1\<close>.
\<close>

lemma post_all_counter:
  "lastRequestId s + int (length ms) \<le> 2 ^ 53 \<Longrightarrow>
     lastRequestId (snd (post_all s ms)) = lastRequestId s + int (length ms)"
proof (induction ms arbitrary: s)
  case Nil show ?case by simp
next
  case (Cons m ms)
  obtain target message where m: "m = (target, message)" by (cases m)
  let ?s' = "snd (postMessageExpectReply s target message)"
  have below: "lastRequestId s < 2 ^ 53" using Cons.prems by simp
  have l: "lastRequestId ?s' = lastRequestId s + 1"
    by (simp add: postMessageExpectReply_def Let_def increment_below [OF below])
  have room: "lastRequestId ?s' + int (length ms) \<le> 2 ^ 53" using Cons.prems l by simp
  have "snd (post_all s (m # ms)) = snd (post_all ?s' ms)"
    by (simp add: m split: prod.splits)
  then show ?case using Cons.IH [OF room] l by simp
qed

lemma run_awaitReply_resolved:
  assumes "no_reply_for rid pre" "elapsed pre < timeout"
    and "type d = ''response''" "requestId d = Some rid"
  shows "promise_of (run (awaitReply tgt rid timeout) (pre @ Message d # later))
           (length (waiters tgt)) = Fulfilled (response d)"
proof -
  let ?w = "\<lparr>awaited = rid, listening = True, failOntimeout = Some (clock tgt + timeout),
      settle_calls = []\<rparr> :: 'a waiter"
  have "waiter_run (clock tgt) ?w (pre @ Message d # later) =
      ?w\<lparr>listening := False, failOntimeout := None,
        settle_calls := settle_calls ?w @ [Resolve (response d)]\<rparr>"
    using assms
    by (intro waiter_run_resolves [where deadline = "clock tgt + timeout" and rid = rid]) simp_all
  then show ?thesis
    by (simp add: promise_of_def awaited_waiter_run)
qed

lemma run_awaitReply_timed_out:
  assumes "no_reply_for rid pre" "time_passes pre" "timeout \<le> elapsed pre"
  shows "waiters (run (awaitReply tgt rid timeout) (pre @ later)) ! length (waiters tgt) =
           \<lparr>awaited = rid, listening = False, failOntimeout = None,
             settle_calls = [Reject ''Request timed out'']\<rparr>"
proof -
  let ?w = "\<lparr>awaited = rid, listening = True, failOntimeout = Some (clock tgt + timeout),
      settle_calls = []\<rparr> :: 'a waiter"
  have "waiter_run (clock tgt) ?w (pre @ later) = timeout_callback ?w"
    using assms
    by (intro waiter_run_times_out [where deadline = "clock tgt + timeout" and rid = rid]) simp_all
  then show ?thesis
    by (simp add: awaited_waiter_run timeout_callback_def)
qed

subsection \<open>Claims about \<open>awaitReply\<close>, the request counter and \<open>responseTo\<close>\<close>

text \<open>
  Claim C1. The promise of \<open>awaitReply(target, rid, timeout)\<close> is fulfilled with the
  \<open>response\<close> field of the first message of type \<open>response\<close> and \<open>requestId\<close> equal to
  \<open>rid\<close> that the target receives, provided it arrives before the timer has run (less than
  \<open>timeout\<close> milliseconds have passed); whatever follows does not change that. A message
  whose \<open>requestId\<close> is not the one a waiter awaits leaves that waiter as it was. With a
  waiter for id 1 and a waiter for id 2 on one target, a reply for id 2 fulfils the second
  and leaves the first pending and listening.
\<close>

theorem awaitReply_resolves_with_first_matching_response:
  "(no_reply_for rid pre \<and> elapsed pre < timeout \<and>
      type d = ''response'' \<and> requestId d = Some rid \<longrightarrow>
      promise_of (run (awaitReply tgt rid timeout) (pre @ Message d # later))
        (length (waiters tgt)) = Fulfilled (response d)) \<and>
   (k < length (waiters tgt) \<and> requestId d' \<noteq> Some (awaited (waiters tgt ! k)) \<longrightarrow>
      waiters (step tgt (Message d')) ! k = waiters tgt ! k) \<and>
   (let both = awaitReply (awaitReply tgt 1 t1) 2 t2;
        after = step both (Message (responseTo 2 r))
    in promise_of after (Suc (length (waiters tgt))) = Fulfilled r \<and>
       promise_of after (length (waiters tgt)) = Pending \<and>
       listening (waiters after ! length (waiters tgt)))"
proof (intro conjI impI)
  assume "no_reply_for rid pre \<and> elapsed pre < timeout \<and>
      type d = ''response'' \<and> requestId d = Some rid"
  then show "promise_of (run (awaitReply tgt rid timeout) (pre @ Message d # later))
        (length (waiters tgt)) = Fulfilled (response d)"
    by (intro run_awaitReply_resolved) simp_all
next
  assume "k < length (waiters tgt) \<and> requestId d' \<noteq> Some (awaited (waiters tgt ! k))"
  then show "waiters (step tgt (Message d')) ! k = waiters tgt ! k"
    by (simp add: step_def Let_def responseHandler_def)
next
  show "let both = awaitReply (awaitReply tgt 1 t1) 2 t2;
        after = step both (Message (responseTo 2 r))
    in promise_of after (Suc (length (waiters tgt))) = Fulfilled r \<and>
       promise_of after (length (waiters tgt)) = Pending \<and>
       listening (waiters after ! length (waiters tgt))"
    by (simp add: Let_def promise_of_def step_def awaitReply_def responseTo_def
        responseHandler_def nth_append)
qed

theorem awaitReply_resolves_witness:
  "no_reply_for 2 [Message (responseTo 1 ''one''), Elapse 100 :: string event] \<and>
   elapsed [Message (responseTo 1 ''one''), Elapse 100 :: string event] < 25000 \<and>
   promise_of
     (run (awaitReply (awaitReply \<lparr>clock = 0, waiters = []\<rparr> 1 25000) 2 25000)
        ([Message (responseTo 1 ''one''), Elapse 100] @
           Message (responseTo 2 ''two'') # [Message (responseTo 2 ''late'')]))
     1 = Fulfilled ''two'' \<and>
   waiters (step (awaitReply \<lparr>clock = 0, waiters = []\<rparr> 1 25000) (Message (responseTo 2 ''two''))) ! 0 =
     \<lparr>awaited = 1, listening = True, failOntimeout = Some 25000, settle_calls = []\<rparr>"
  using awaitReply_resolves_with_first_matching_response
    [where rid = 2 and pre = "[Message (responseTo 1 ''one''), Elapse 100]" and timeout = 25000
       and d = "responseTo 2 ''two''" and later = "[Message (responseTo 2 ''late'')]"
       and tgt = "awaitReply \<lparr>clock = 0, waiters = []\<rparr> 1 25000"
       and k = 0 and d' = "responseTo 2 ''two''"]
  by (simp add: responseTo_def awaitReply_def)

text \<open>
  Claim C2. When time passes up to the deadline (\<open>timeout\<close> milliseconds after the call)
  and no message of type \<open>response\<close> with the awaited id has arrived, the timer callback
  rejects the promise with the error \<open>Request timed out\<close> and removes the listener; later
  messages change nothing. After any run of events at most one call to \<open>resolve\<close> or
  \<open>reject\<close> has been made, the listener is registered exactly as long as no such call has
  been made, and the timer is armed exactly as long as the listener is registered. The
  default timeout is 25000 milliseconds.
\<close>

theorem awaitReply_times_out_settles_once_and_unsubscribes:
  "(no_reply_for rid pre \<and> time_passes pre \<and> timeout \<le> elapsed pre \<longrightarrow>
      waiters (run (awaitReply tgt rid timeout) (pre @ later)) ! length (waiters tgt) =
        \<lparr>awaited = rid, listening = False, failOntimeout = None,
          settle_calls = [Reject ''Request timed out'']\<rparr>) \<and>
   length (settle_calls (waiters (run (awaitReply tgt rid timeout) es) ! length (waiters tgt))) \<le> 1 \<and>
   listening (waiters (run (awaitReply tgt rid timeout) es) ! length (waiters tgt)) =
     (settle_calls (waiters (run (awaitReply tgt rid timeout) es) ! length (waiters tgt)) = []) \<and>
   listening (waiters (run (awaitReply tgt rid timeout) es) ! length (waiters tgt)) =
     (failOntimeout (waiters (run (awaitReply tgt rid timeout) es) ! length (waiters tgt)) \<noteq> None) \<and>
   DEFAULT_RESPONSE_TIMEOUT = 25000"
proof -
  let ?w = "\<lparr>awaited = rid, listening = True, failOntimeout = Some (clock tgt + timeout),
      settle_calls = []\<rparr> :: 'a waiter"
  have a: "no_reply_for rid pre \<and> time_passes pre \<and> timeout \<le> elapsed pre \<longrightarrow>
      waiters (run (awaitReply tgt rid timeout) (pre @ later)) ! length (waiters tgt) =
        \<lparr>awaited = rid, listening = False, failOntimeout = None,
          settle_calls = [Reject ''Request timed out'']\<rparr>"
  proof
    assume "no_reply_for rid pre \<and> time_passes pre \<and> timeout \<le> elapsed pre"
    then show "waiters (run (awaitReply tgt rid timeout) (pre @ later)) ! length (waiters tgt) =
        \<lparr>awaited = rid, listening = False, failOntimeout = None,
          settle_calls = [Reject ''Request timed out'']\<rparr>"
      by (intro run_awaitReply_timed_out) simp_all
  qed
  have b: "listening (waiter_run (clock tgt) ?w es) = (settle_calls (waiter_run (clock tgt) ?w es) = []) \<and>
         listening (waiter_run (clock tgt) ?w es) = (failOntimeout (waiter_run (clock tgt) ?w es) \<noteq> None) \<and>
         length (settle_calls (waiter_run (clock tgt) ?w es)) \<le> 1"
    by (rule waiter_run_once) simp_all
  show ?thesis
    unfolding awaited_waiter_run [of tgt rid timeout es]
    using a b by (simp add: DEFAULT_RESPONSE_TIMEOUT_def) blast
qed

theorem awaitReply_times_out_witness:
  "no_reply_for 1 [Message (responseTo 2 ''two''), Elapse 10 :: string event] \<and>
   time_passes [Message (responseTo 2 ''two''), Elapse 10 :: string event] \<and>
   (10 :: nat) \<le> elapsed [Message (responseTo 2 ''two''), Elapse 10 :: string event] \<and>
   waiters (run (awaitReply \<lparr>clock = 0, waiters = []\<rparr> 1 10)
      ([Message (responseTo 2 ''two''), Elapse 10] @ [Message (responseTo 1 ''late'')])) ! 0 =
     \<lparr>awaited = 1, listening = False, failOntimeout = None,
       settle_calls = [Reject ''Request timed out'']\<rparr>"
  using awaitReply_times_out_settles_once_and_unsubscribes
    [where rid = 1 and pre = "[Message (responseTo 2 ''two''), Elapse 10]" and timeout = 10
       and later = "[Message (responseTo 1 ''late'')]"
       and tgt = "\<lparr>clock = 0, waiters = []\<rparr> :: string event_target"]
  by (simp add: responseTo_def)

text \<open>
  Claim C3, as amended. As long as the counter stays within \<open>2 ^ 53\<close>,
  \<open>postMessageExpectReply\<close> returns the counter's value plus one and stores it back, and the
  ids returned by a sequence of calls are the consecutive integers after the counter's
  starting value: strictly increasing, pairwise distinct, and each smaller than the id of
  any later call. From the module's initial state, where the counter is 0, they are 1, 2,
  3 and so on.
\<close>

theorem request_ids_increase_within_2_53:
  "(0 \<le> lastRequestId s \<and> lastRequestId s + int (length ms) \<le> 2 ^ 53 \<longrightarrow>
      fst (post_all s ms) = map (\<lambda>i. lastRequestId s + 1 + int i) [0..<length ms] \<and>
      sorted_wrt (<) (fst (post_all s ms)) \<and>
      distinct (fst (post_all s ms))) \<and>
   (0 \<le> lastRequestId s \<and> lastRequestId s + int (length ms) < 2 ^ 53 \<longrightarrow>
      list_all (\<lambda>earlier. earlier < fst (postMessageExpectReply (snd (post_all s ms)) target message))
        (fst (post_all s ms))) \<and>
   (0 \<le> lastRequestId s \<and> lastRequestId s < 2 ^ 53 \<longrightarrow>
      fst (postMessageExpectReply s target message) = lastRequestId s + 1 \<and>
      lastRequestId (snd (postMessageExpectReply s target message)) = lastRequestId s + 1) \<and>
   (int (length ms) \<le> 2 ^ 53 \<longrightarrow>
      fst (post_all initial_messaging ms) = map (\<lambda>i. 1 + int i) [0..<length ms])"
proof (intro conjI impI)
  assume h: "0 \<le> lastRequestId s \<and> lastRequestId s + int (length ms) \<le> 2 ^ 53"
  then show ids: "fst (post_all s ms) = map (\<lambda>i. lastRequestId s + 1 + int i) [0..<length ms]"
    by (intro post_all_ids) simp
  have "sorted_wrt (<) (map (\<lambda>i. lastRequestId s + 1 + int i) [0..<length ms])"
    by (simp add: sorted_wrt_map sorted_wrt_upt [unfolded sorted_wrt_iff_nth_less]
        sorted_wrt_iff_nth_less)
  then show "sorted_wrt (<) (fst (post_all s ms))" by (simp only: ids)
  have "inj_on (\<lambda>i. lastRequestId s + 1 + int i) (set [0..<length ms])"
    by (rule inj_onI) simp
  then have "distinct (map (\<lambda>i. lastRequestId s + 1 + int i) [0..<length ms])"
    by (simp add: distinct_map)
  then show "distinct (fst (post_all s ms))" by (simp only: ids)
next
  assume h: "0 \<le> lastRequestId s \<and> lastRequestId s + int (length ms) < 2 ^ 53"
  then have room: "lastRequestId s + int (length ms) \<le> 2 ^ 53" by simp
  have ids: "fst (post_all s ms) = map (\<lambda>i. lastRequestId s + 1 + int i) [0..<length ms]"
    using room by (rule post_all_ids)
  have counter: "lastRequestId (snd (post_all s ms)) = lastRequestId s + int (length ms)"
    using room by (rule post_all_counter)
  have "fst (postMessageExpectReply (snd (post_all s ms)) target message) =
      lastRequestId s + int (length ms) + 1"
    using h by (simp add: postMessageExpectReply_def Let_def counter increment_below)
  then show "list_all (\<lambda>earlier. earlier < fst (postMessageExpectReply (snd (post_all s ms)) target message))
        (fst (post_all s ms))"
    by (simp add: ids list_all_iff)
next
  assume h: "0 \<le> lastRequestId s \<and> lastRequestId s < 2 ^ 53"
  then show "fst (postMessageExpectReply s target message) = lastRequestId s + 1"
    by (simp add: postMessageExpectReply_def Let_def increment_below)
  from h show "lastRequestId (snd (postMessageExpectReply s target message)) = lastRequestId s + 1"
    by (simp add: postMessageExpectReply_def Let_def increment_below)
next
  assume "int (length ms) \<le> 2 ^ 53"
  then show "fst (post_all initial_messaging ms) = map (\<lambda>i. 1 + int i) [0..<length ms]"
    using post_all_ids [of initial_messaging ms] by (simp add: initial_messaging_def)
qed

theorem request_ids_increase_witness:
  "0 \<le> lastRequestId (initial_messaging :: (nat, string) messaging) \<and>
   lastRequestId (initial_messaging :: (nat, string) messaging) +
     int (length [(0 :: nat, version_request), (1, version_request), (0, version_request)]) < 2 ^ 53 \<and>
   fst (post_all initial_messaging [(0 :: nat, version_request), (1, version_request), (0, version_request)]) =
     [1, 2, 3] \<and>
   fst (postMessageExpectReply
          (snd (post_all initial_messaging
                  [(0 :: nat, version_request), (1, version_request), (0, version_request)]))
          0 version_request) = 4"
proof -
  let ?ms = "[(0 :: nat, version_request), (1, version_request), (0, version_request)]"
  have h: "0 \<le> lastRequestId (initial_messaging :: (nat, string) messaging)"
    "lastRequestId (initial_messaging :: (nat, string) messaging) + int (length ?ms) < 2 ^ 53"
    by (simp_all add: initial_messaging_def)
  have ids: "fst (post_all initial_messaging ?ms) = [1, 2, 3]"
    using request_ids_increase_within_2_53 [of initial_messaging ?ms] h
    by (simp add: initial_messaging_def upt_rec)
  have counter: "lastRequestId (snd (post_all (initial_messaging :: (nat, string) messaging) ?ms)) = 3"
    using post_all_counter [of "initial_messaging :: (nat, string) messaging" ?ms]
    by (simp add: initial_messaging_def)
  have "fst (postMessageExpectReply (snd (post_all initial_messaging ?ms)) 0 version_request) = 4"
    using request_ids_increase_within_2_53
      [of "snd (post_all (initial_messaging :: (nat, string) messaging) ?ms)" "[]" 0 version_request]
      counter
    by simp
  with h ids show ?thesis by simp
qed

text \<open>
  Without the bound the claim fails. With the counter at \<open>2 ^ 53 - 1\<close>, the next three calls
  all return \<open>2 ^ 53\<close>: the second and the third id are not greater than the first, and the
  id is used again.
\<close>

theorem request_id_reused_at_2_53_counterexample:
  "fst (post_all last_safe_messaging [(0, version_request), (1, version_request), (0, version_request)]) =
     [9007199254740992, 9007199254740992, 9007199254740992]"
  by (simp add: last_safe_messaging_def postMessageExpectReply_def increment_def Let_def)

text \<open>
  Claim C10. \<open>responseTo(n, r)\<close> is the object with \<open>type\<close> \<open>response\<close>, \<open>requestId\<close> \<open>n\<close>
  and \<open>response\<close> \<open>r\<close>; it passes the test of \<open>responseHandler\<close> for id \<open>n\<close>, and a waiter
  created by \<open>awaitReply(target, n)\<close> that receives it is fulfilled with \<open>r\<close>.
\<close>

theorem responseTo_matches_awaitReply:
  "responseTo n r = \<lparr>type = ''response'', requestId = Some n, response = r\<rparr> \<and>
   is_reply_for n (Message (responseTo n r)) \<and>
   responseHandler \<lparr>awaited = n, listening = True, failOntimeout = Some deadline, settle_calls = []\<rparr>
       (responseTo n r) =
     \<lparr>awaited = n, listening = False, failOntimeout = None, settle_calls = [Resolve r]\<rparr> \<and>
   promise_of (step (awaitReply tgt n timeout) (Message (responseTo n r))) (length (waiters tgt)) =
     Fulfilled r"
  by (simp add: responseTo_def responseHandler_def promise_of_def step_def Let_def awaitReply_def
      nth_append)


section \<open>Properties of paths and scopes\<close>

subsection \<open>The string methods\<close>


lemma startsWith_iff: "startsWith s p \<longleftrightarrow> (\<exists>r. s = p @ r)"
  by (induction s p rule: startsWith.induct) auto

lemma endsWith_iff: "endsWith s p \<longleftrightarrow> (\<exists>q. s = q @ p)"
proof -
  have "(\<exists>r. rev s = rev p @ r) \<longleftrightarrow> (\<exists>q. s = q @ p)"
  proof
    assume "\<exists>r. rev s = rev p @ r"
    then obtain r where "rev s = rev p @ r" ..
    then have "s = rev r @ p" by (simp add: rev_swap)
    then show "\<exists>q. s = q @ p" ..
  next
    assume "\<exists>q. s = q @ p"
    then obtain q where "s = q @ p" ..
    then have "rev s = rev p @ rev q" by simp
    then show "\<exists>r. rev s = rev p @ r" ..
  qed
  then show ?thesis by (simp add: endsWith_def startsWith_iff)
qed

lemma includes_str_iff: "includes_str s p \<longleftrightarrow> (\<exists>q r. s = q @ p @ r)"
proof (induction s)
  case Nil
  show ?case by auto
next
  case (Cons x xs)
  show ?case
  proof
    assume "includes_str (x # xs) p"
    then consider "startsWith (x # xs) p" | "includes_str xs p" by auto
    then show "\<exists>q r. x # xs = q @ p @ r"
    proof cases
      case 1
      then obtain r where "x # xs = p @ r" by (auto simp: startsWith_iff)
      then have "x # xs = [] @ p @ r" by simp
      then show ?thesis by blast
    next
      case 2
      then obtain q r where "xs = q @ p @ r" using Cons.IH by auto
      then have "x # xs = (x # q) @ p @ r" by simp
      then show ?thesis by blast
    qed
  next
    assume "\<exists>q r. x # xs = q @ p @ r"
    then obtain q r where qr: "x # xs = q @ p @ r" by blast
    show "includes_str (x # xs) p"
    proof (cases q)
      case Nil
      then have "startsWith (x # xs) p" using qr by (auto simp: startsWith_iff)
      then show ?thesis by simp
    next
      case (Cons y ys)
      then have "xs = ys @ p @ r" using qr by simp
      then have "includes_str xs p" using Cons.IH by blast
      then show ?thesis by simp
    qed
  qed
qed

lemma includes_str_char: "includes_str s [c] \<longleftrightarrow> c \<in> set s"
  by (induction s) auto

lemma split_not_Nil: "split s c \<noteq> []"
  by (induction s) (auto split: list.splits)

lemma split_Cons_other: "x \<noteq> c \<Longrightarrow> split (x # xs) c = (x # hd (split xs c)) # tl (split xs c)"
  using split_not_Nil [of xs c] by (cases "split xs c") simp_all

lemma split_append: "c \<notin> set a \<Longrightarrow> split (a @ c # b) c = a # split b c"
proof (induction a)
  case Nil show ?case by simp
next
  case (Cons x a)
  then have "x \<noteq> c" by auto
  then show ?case using Cons by (simp add: split_Cons_other)
qed

lemma split_no_sep: "c \<notin> set a \<Longrightarrow> split a c = [a]"
  by (induction a) (auto simp: split_Cons_other)

lemma join_Cons: "ss \<noteq> [] \<Longrightarrow> join (s # ss) c = s @ c # join ss c"
  by (cases ss) simp_all

lemma join_split: "join (split s c) c = s"
proof (induction s)
  case Nil show ?case by simp
next
  case (Cons x xs)
  show ?case
  proof (cases "x = c")
    case True
    then show ?thesis using Cons.IH split_not_Nil [of xs c] by (simp add: join_Cons)
  next
    case False
    obtain seg segs where s: "split xs c = seg # segs"
      using split_not_Nil [of xs c] by (cases "split xs c") auto
    show ?thesis
    proof (cases segs)
      case Nil
      then show ?thesis using Cons.IH s False by simp
    next
      case (Cons t rest)
      then show ?thesis using Cons.IH s False by simp
    qed
  qed
qed

lemma last_split: "last (split s c) = rev (takeWhile (\<lambda>x. x \<noteq> c) (rev s))"
proof (induction s)
  case Nil show ?case by simp
next
  case (Cons x xs)
  obtain seg segs where s: "split xs c = seg # segs"
    using split_not_Nil [of xs c] by (cases "split xs c") auto
  show ?case
  proof (cases "c \<in> set xs")
    case True
    then have tw: "takeWhile (\<lambda>x. x \<noteq> c) (rev xs @ [x]) = takeWhile (\<lambda>x. x \<noteq> c) (rev xs)"
      by (simp add: takeWhile_append1 [where x = c])
    have "segs \<noteq> []"
    proof
      assume "segs = []"
      then have "join (split xs c) c = seg" using s by simp
      then have "xs = seg" by (simp add: join_split)
      moreover have "c \<notin> set seg"
        using Cons.IH s \<open>segs = []\<close> by (auto dest: set_takeWhileD)
      ultimately show False using True by simp
    qed
    then have "last (split (x # xs) c) = last (split xs c)"
      using s by (cases "x = c") simp_all
    then show ?thesis using Cons.IH tw by simp
  next
    case False
    then have xs: "split xs c = [xs]" by (rule split_no_sep)
    have tw: "takeWhile (\<lambda>x. x \<noteq> c) (rev xs @ ys) = rev xs @ takeWhile (\<lambda>x. x \<noteq> c) ys" for ys
      using False by (intro takeWhile_append2) auto
    show ?thesis
      using xs by (simp add: tw)
  qed
qed

lemma scoped_pathname_split:
  assumes "CHR ''/'' \<notin> set token"
  shows "split (''/scope:'' @ token @ CHR ''/'' # rest) CHR ''/'' =
           [] # (''scope:'' @ token) # split rest CHR ''/''"
proof -
  have "CHR ''/'' \<notin> set (''scope:'' @ token)" using assms by simp
  then have "split ((''scope:'' @ token) @ CHR ''/'' # rest) CHR ''/'' =
      (''scope:'' @ token) # split rest CHR ''/''"
    by (rule split_append)
  then show ?thesis by simp
qed

lemma isURLScoped_setURLScope: "isURLScoped (setURLScope u token)"
  by (simp add: setURLScope_def isURLScoped_def)

subsection \<open>Claims about the forwarding test and the scope codec\<close>

text \<open>
  Claim C5. \<open>seemsLikeAPHPServerPath\<close> holds of a path exactly when the path ends in
  \<open>.php\<close>, or contains \<open>.php/\<close> (a script followed by further segments), or its final
  segment (what follows the last slash) contains no dot. It holds of \<open>/index.php\<close>,
  \<open>/index.php/extra/segment\<close>, \<open>/\<close> and \<open>/blog/\<close>, and not of \<open>/style.css\<close>.
\<close>

theorem seemsLikeAPHPServerPath_php_or_no_extension:
  "last (split p CHR ''/'') = rev (takeWhile (\<lambda>c. c \<noteq> CHR ''/'') (rev p)) \<and>
   seemsLikeAPHPServerPath p =
     ((\<exists>q. p = q @ ''.php'') \<or> (\<exists>q r. p = q @ ''.php/'' @ r) \<or>
      CHR ''.'' \<notin> set (last (split p CHR ''/''))) \<and>
   seemsLikeAPHPServerPath ''/index.php'' \<and>
   seemsLikeAPHPServerPath ''/index.php/extra/segment'' \<and>
   seemsLikeAPHPServerPath ''/'' \<and>
   seemsLikeAPHPServerPath ''/blog/'' \<and>
   \<not> seemsLikeAPHPServerPath ''/style.css''"
proof -
  have general: "seemsLikeAPHPServerPath p =
     ((\<exists>q. p = q @ ''.php'') \<or> (\<exists>q r. p = q @ ''.php/'' @ r) \<or>
      CHR ''.'' \<notin> set (last (split p CHR ''/'')))"
  proof -
    have f: "seemsLikeAPHPFile p =
        ((\<exists>q. p = q @ ''.php'') \<or> (\<exists>q r. p = q @ ''.php/'' @ r))"
      by (simp only: seemsLikeAPHPFile_def endsWith_iff includes_str_iff)
    have d: "seemsLikeADirectoryRoot p = (CHR ''.'' \<notin> set (last (split p CHR ''/'')))"
      by (simp only: seemsLikeADirectoryRoot_def Let_def includes_str_char)
    show ?thesis
      by (simp only: seemsLikeAPHPServerPath_def f d disj_assoc)
  qed
  have examples: "seemsLikeAPHPServerPath ''/index.php''"
    "seemsLikeAPHPServerPath ''/index.php/extra/segment''"
    "seemsLikeAPHPServerPath ''/''"
    "seemsLikeAPHPServerPath ''/blog/''"
    "\<not> seemsLikeAPHPServerPath ''/style.css''"
    by (simp_all add: seemsLikeAPHPServerPath_def seemsLikeAPHPFile_def
        seemsLikeADirectoryRoot_def endsWith_def)
  show ?thesis using general examples last_split [of p "CHR ''/''"] by blast
qed

theorem seemsLikeAPHPServerPath_witness:
  "seemsLikeAPHPServerPath ''/wp-admin/edit.php/x.css'' \<and>
   last (split ''/wp-admin/'' CHR ''/'') = [] \<and>
   seemsLikeAPHPServerPath ''/wp-admin/''"
proof -
  have "''/wp-admin/edit.php/x.css'' = ''/wp-admin/edit'' @ ''.php/'' @ ''x.css''" by simp
  then have "\<exists>q r. ''/wp-admin/edit.php/x.css'' = q @ ''.php/'' @ r" by blast
  then have a: "seemsLikeAPHPServerPath ''/wp-admin/edit.php/x.css''"
    using seemsLikeAPHPServerPath_php_or_no_extension [of "''/wp-admin/edit.php/x.css''"] by blast
  have b: "last (split ''/wp-admin/'' CHR ''/'') = []"
    using seemsLikeAPHPServerPath_php_or_no_extension [of "''/wp-admin/''"] by simp
  then have "seemsLikeAPHPServerPath ''/wp-admin/''"
    using seemsLikeAPHPServerPath_php_or_no_extension [of "''/wp-admin/''"] by simp
  with a b show ?thesis by simp
qed

text \<open>
  Claim C4, as amended. For every URL whose path starts with a slash and that is not
  already scoped, and every token without a slash, \<open>removeURLScope (setURLScope u token)\<close>
  is \<open>u\<close> and \<open>getURLScope (setURLScope u token)\<close> is the token; the scoped URL differs from
  \<open>u\<close> only by the leading segment \<open>/scope:token\<close>, and stripping that segment and
  embedding the token again gives the scoped URL back.
\<close>

theorem scope_round_trip_unscoped:
  "wellformed u \<and> \<not> isURLScoped u \<and> CHR ''/'' \<notin> set token \<longrightarrow>
     removeURLScope (setURLScope u token) = u \<and>
     getURLScope (setURLScope u token) = Some token \<and>
     isURLScoped (setURLScope u token) \<and>
     pathname (setURLScope u token) = ''/scope:'' @ token @ pathname u \<and>
     setURLScope (removeURLScope (setURLScope u token)) token = setURLScope u token"
proof
  assume h: "wellformed u \<and> \<not> isURLScoped u \<and> CHR ''/'' \<notin> set token"
  then obtain rest where rest: "pathname u = CHR ''/'' # rest"
    by (auto simp: wellformed_def startsWith_iff)
  have p: "pathname (setURLScope u token) = ''/scope:'' @ token @ CHR ''/'' # rest"
    using h rest by (simp add: setURLScope_def)
  have sp: "split (pathname (setURLScope u token)) CHR ''/'' =
      [] # (''scope:'' @ token) # split rest CHR ''/''"
    unfolding p using h by (intro scoped_pathname_split) simp
  have sc: "isURLScoped (setURLScope u token)" by (rule isURLScoped_setURLScope)
  have "removeURLScope (setURLScope u token) = (setURLScope u token)\<lparr>pathname := CHR ''/'' # rest\<rparr>"
    using sc sp by (simp add: removeURLScope_def join_split)
  also have "\<dots> = u" using h rest by (simp add: setURLScope_def)
  finally have r: "removeURLScope (setURLScope u token) = u" .
  have g: "getURLScope (setURLScope u token) = Some token"
    using sc sp by (simp add: getURLScope_def)
  show "removeURLScope (setURLScope u token) = u \<and>
     getURLScope (setURLScope u token) = Some token \<and>
     isURLScoped (setURLScope u token) \<and>
     pathname (setURLScope u token) = ''/scope:'' @ token @ pathname u \<and>
     setURLScope (removeURLScope (setURLScope u token)) token = setURLScope u token"
    using r g sc p rest by simp
qed

theorem scope_round_trip_witness:
  "wellformed \<lparr>origin = ''http://localhost'', pathname = ''/index.php'', search = ''?p=1'', hash = []\<rparr> \<and>
   \<not> isURLScoped \<lparr>origin = ''http://localhost'', pathname = ''/index.php'', search = ''?p=1'', hash = []\<rparr> \<and>
   CHR ''/'' \<notin> set ''abc'' \<and>
   setURLScope \<lparr>origin = ''http://localhost'', pathname = ''/index.php'', search = ''?p=1'', hash = []\<rparr> ''abc'' =
     \<lparr>origin = ''http://localhost'', pathname = ''/scope:abc/index.php'', search = ''?p=1'', hash = []\<rparr> \<and>
   removeURLScope \<lparr>origin = ''http://localhost'', pathname = ''/scope:abc/index.php'', search = ''?p=1'', hash = []\<rparr> =
     \<lparr>origin = ''http://localhost'', pathname = ''/index.php'', search = ''?p=1'', hash = []\<rparr> \<and>
   getURLScope \<lparr>origin = ''http://localhost'', pathname = ''/scope:abc/index.php'', search = ''?p=1'', hash = []\<rparr> =
     Some ''abc''"
  using scope_round_trip_unscoped
    [of "\<lparr>origin = ''http://localhost'', pathname = ''/index.php'', search = ''?p=1'', hash = []\<rparr>" "''abc''"]
  by (simp add: wellformed_def isURLScoped_def setURLScope_def)

text \<open>
  The law as the claim states it, for every URL and every token, fails on a URL that is
  already scoped: \<open>setURLScope\<close> leaves it alone and \<open>removeURLScope\<close> strips the scope it
  had.
\<close>

theorem scope_round_trip_counterexample:
  "removeURLScope
     (setURLScope \<lparr>origin = ''http://localhost'', pathname = ''/scope:a/x'', search = [], hash = []\<rparr> ''b'')
   \<noteq> \<lparr>origin = ''http://localhost'', pathname = ''/scope:a/x'', search = [], hash = []\<rparr>"
  by (simp add: removeURLScope_def setURLScope_def isURLScoped_def)

text \<open>
  A token with a slash in it does not survive either: the first path segment ends at the
  slash.
\<close>

lemma scope_token_with_separator:
  "getURLScope
     (setURLScope \<lparr>origin = ''http://localhost'', pathname = ''/x'', search = [], hash = []\<rparr> ''a/b'')
   = Some ''a'' \<and>
   removeURLScope
     (setURLScope \<lparr>origin = ''http://localhost'', pathname = ''/x'', search = [], hash = []\<rparr> ''a/b'')
   = \<lparr>origin = ''http://localhost'', pathname = ''/b/x'', search = [], hash = []\<rparr>"
  by (simp add: removeURLScope_def setURLScope_def isURLScoped_def getURLScope_def)


section \<open>Properties of the service worker\<close>

subsection \<open>Unfolding the listener\<close>


lemmas example_defs = example_platform_def example_worker_def example_request_def
  logo_request_def index_request_def xml_post_request_def empty_post_request_def
  style_request_def

lemmas listener_defs = fetch_listener_def resolve_scope_def isURLScoped_def
    removeURLScope_def shouldForwardRequestToPHPServer_def seemsLikeAPHPServerPath_def
    seemsLikeAPHPFile_def seemsLikeADirectoryRoot_def endsWith_def setURLScope_def
    forward_to_php_def parsePost_def getPathQueryFragment_def getURLScope_def
    broadcastMessageExpectReply_def getNextRequestId_def cloneRequest_def blob_def
    awaitReply_def run_def step_def promise_of_def DEFAULT_RESPONSE_TIMEOUT_def
    timeout_callback_def responseHandler_def responseTo_def new_Response_def
    contains_header_def lower_def set_property_def Let_def

text \<open>
  A scoped URL always has a token to read, so the listener never takes the branch of
  \<open>resolve_scope\<close> for a scoped referer without one.
\<close>

lemma getURLScope_scoped: "isURLScoped u \<Longrightarrow> \<exists>token. getURLScope u = Some token"
proof -
  assume scoped: "isURLScoped u"
  then obtain rest where "pathname u = CHR ''/'' # (''scope:'' @ rest)"
    by (auto simp: isURLScoped_def startsWith_iff)
  then have "split (pathname u) CHR ''/'' = [] # split (''scope:'' @ rest) CHR ''/''"
    by (simp only: split.simps refl if_True)
  moreover obtain seg segs where "split (''scope:'' @ rest) CHR ''/'' = seg # segs"
    using split_not_Nil [of "''scope:'' @ rest" "CHR ''/''"]
    by (cases "split (''scope:'' @ rest) CHR ''/''") blast+
  ultimately have "getURLScope u = Some (drop 6 seg)"
    using scoped by (simp only: getURLScope_def if_True list.case)
  then show ?thesis ..
qed

lemma broadcast_id: "fst (broadcastMessageExpectReply sw m) = requestCounter sw + 1"
  by (simp add: broadcastMessageExpectReply_def getNextRequestId_def)

lemma broadcast_self: "self (snd (broadcastMessageExpectReply sw m)) = self sw"
  by (simp add: broadcastMessageExpectReply_def getNextRequestId_def)

lemma broadcast_messages:
  "client_messages (snd (broadcastMessageExpectReply sw m)) =
     client_messages sw @
       map (\<lambda>client. (client, m\<lparr>message_requestId := Some (requestCounter sw + 1)\<rparr>)) (clients sw)"
  by (simp add: broadcastMessageExpectReply_def getNextRequestId_def)

lemma forward_to_php_cases:
  assumes "parsePost api r = Inr parsed"
  shows "fst (forward_to_php api sw r url evs) =
     (case promise_of (run (awaitReply (self sw) (requestCounter sw + 1) DEFAULT_RESPONSE_TIMEOUT) evs)
             (length (waiters (self sw))) of
        Pending \<Rightarrow>
          \<lparr>defaultPrevented = True,
            respondWith = Some \<lparr>accept_calls = [], executor = Suspended\<rparr>, fetches = []\<rparr>
      | Rejected e \<Rightarrow>
          \<lparr>defaultPrevented = True,
            respondWith = Some \<lparr>accept_calls = [], executor = Threw e\<rparr>, fetches = []\<rparr>
      | Fulfilled phpResponse \<Rightarrow>
          (case new_Response api (body phpResponse) (headers phpResponse) (statusCode phpResponse) of
             Inl e \<Rightarrow>
               \<lparr>defaultPrevented = True,
                 respondWith = Some \<lparr>accept_calls = [], executor = Threw e\<rparr>, fetches = []\<rparr>
           | Inr made \<Rightarrow>
               \<lparr>defaultPrevented = True,
                 respondWith = Some \<lparr>accept_calls = [Response made], executor = Completed\<rparr>,
                 fetches = []\<rparr>))"
proof -
  let ?message = "\<lparr>message_type = ''HTTPRequest'', scope = getURLScope url,
      php_request = \<lparr>path = getPathQueryFragment url, php_method = request_method r,
        php_files = files parsed, POST = post parsed,
        php_headers =
          foldl (\<lambda>m (name, v). set_property m name v) Map.empty (request_headers r)\<rparr>,
      message_requestId = None\<rparr> :: 'a http_request_message"
  obtain rid sw' where b: "broadcastMessageExpectReply sw ?message = (rid, sw')"
    by (cases "broadcastMessageExpectReply sw ?message")
  have rid: "rid = requestCounter sw + 1"
    using broadcast_id [of sw ?message] b by simp
  have self: "self sw' = self sw"
    using broadcast_self [of sw ?message] b by simp
  show ?thesis
    by (simp add: forward_to_php_def assms Let_def b rid self
        split: promise_state.splits sum.splits)
qed

lemma forward_to_php_parse_error:
  "parsePost api r = Inl e \<Longrightarrow>
     forward_to_php api sw r url evs =
       (\<lparr>defaultPrevented = True,
         respondWith = Some \<lparr>accept_calls = [], executor = Threw e\<rparr>,
         fetches = []\<rparr>, sw)"
  by (simp add: forward_to_php_def)

lemma forward_to_php_messages:
  assumes "parsePost api r = Inr parsed"
  shows "client_messages (snd (forward_to_php api sw r url evs)) =
     client_messages sw @
       map (\<lambda>client. (client,
              \<lparr>message_type = ''HTTPRequest'', scope = getURLScope url,
                php_request = \<lparr>path = getPathQueryFragment url, php_method = request_method r,
                  php_files = files parsed, POST = post parsed,
                  php_headers =
                    foldl (\<lambda>m (name, v). set_property m name v) Map.empty
                      (request_headers r)\<rparr>,
                message_requestId = Some (requestCounter sw + 1)\<rparr>))
         (clients sw)"
proof -
  let ?message = "\<lparr>message_type = ''HTTPRequest'', scope = getURLScope url,
      php_request = \<lparr>path = getPathQueryFragment url, php_method = request_method r,
        php_files = files parsed, POST = post parsed,
        php_headers =
          foldl (\<lambda>m (name, v). set_property m name v) Map.empty (request_headers r)\<rparr>,
      message_requestId = None\<rparr> :: 'a http_request_message"
  obtain rid sw' where b: "broadcastMessageExpectReply sw ?message = (rid, sw')"
    by (cases "broadcastMessageExpectReply sw ?message")
  have m: "client_messages sw' = client_messages sw @
       map (\<lambda>client. (client, ?message\<lparr>message_requestId := Some (requestCounter sw + 1)\<rparr>))
         (clients sw)"
    using broadcast_messages [of sw ?message] b by simp
  show ?thesis
    by (simp add: forward_to_php_def assms Let_def b m split: promise_state.splits sum.splits)
qed


subsection \<open>Claims about the fetch listener\<close>




text \<open>
  Claim C7, what the code does where the claim wants an empty body. For a \<open>POST\<close> whose
  body the form reader rejects, \<open>parsePost\<close> catches that failure and reads the body as
  JSON. When the JSON reader rejects the body as well, nothing catches it: \<open>parsePost\<close>
  fails with the JSON reader's error, there is no empty-body result, the executor of the
  forwarding branch ends with that exception before anything is sent to the clients, and
  no response is accepted.
\<close>

theorem parsePost_json_failure_is_not_recovered:
  "(request_method r = ''POST'' \<and> formData api r = Inl e \<and> json api r = Inr document \<longrightarrow>
      parsePost api r = Inr \<lparr>post = Document document, files = Some Map.empty\<rparr>) \<and>
   (request_method r = ''POST'' \<and> formData api r = Inl e \<and> json api r = Inl e' \<longrightarrow>
      parsePost api r = Inl e' \<and>
      forward_to_php api sw r url evs =
        (\<lparr>defaultPrevented = True,
          respondWith = Some \<lparr>accept_calls = [], executor = Threw e'\<rparr>,
          fetches = []\<rparr>, sw))"
proof (intro conjI impI)
  assume "request_method r = ''POST'' \<and> formData api r = Inl e \<and> json api r = Inr document"
  then show "parsePost api r = Inr \<lparr>post = Document document, files = Some Map.empty\<rparr>"
    by (simp add: parsePost_def)
next
  assume "request_method r = ''POST'' \<and> formData api r = Inl e \<and> json api r = Inl e'"
  then show failed: "parsePost api r = Inl e'"
    by (simp add: parsePost_def)
  show "forward_to_php api sw r url evs =
        (\<lparr>defaultPrevented = True,
          respondWith = Some \<lparr>accept_calls = [], executor = Threw e'\<rparr>,
          fetches = []\<rparr>, sw)"
    using failed by (rule forward_to_php_parse_error)
qed

theorem parsePost_json_failure_witness:
  "request_method xml_post_request = ''POST'' \<and>
   formData example_platform xml_post_request = Inl ''TypeError'' \<and>
   json example_platform xml_post_request = Inl ''SyntaxError'' \<and>
   parsePost example_platform xml_post_request = Inl ''SyntaxError'' \<and>
   fetch_listener None example_platform example_worker xml_post_request [] =
     (\<lparr>defaultPrevented = True,
       respondWith = Some \<lparr>accept_calls = [], executor = Threw ''SyntaxError''\<rparr>,
       fetches = []\<rparr>, example_worker) \<and>
   request_method empty_post_request = ''POST'' \<and>
   formData example_platform empty_post_request = Inl ''TypeError'' \<and>
   json example_platform empty_post_request = Inl ''SyntaxError'' \<and>
   parsePost example_platform empty_post_request = Inl ''SyntaxError''"
proof -
  have x: "request_method xml_post_request = ''POST''"
    "formData example_platform xml_post_request = Inl ''TypeError''"
    "json example_platform xml_post_request = Inl ''SyntaxError''"
    by (simp_all add: example_defs)
  have n: "request_method empty_post_request = ''POST''"
    "formData example_platform empty_post_request = Inl ''TypeError''"
    "json example_platform empty_post_request = Inl ''SyntaxError''"
    by (simp_all add: example_defs)
  have forwarded: "fetch_listener None example_platform example_worker xml_post_request [] =
      forward_to_php example_platform example_worker xml_post_request
        (request_url xml_post_request) []"
    by (simp add: example_defs fetch_listener_def resolve_scope_def isURLScoped_def
        removeURLScope_def shouldForwardRequestToPHPServer_def seemsLikeAPHPServerPath_def
        seemsLikeAPHPFile_def endsWith_def Let_def)
  have a: "parsePost example_platform xml_post_request = Inl ''SyntaxError''"
    "forward_to_php example_platform example_worker xml_post_request
        (request_url xml_post_request) [] =
      (\<lparr>defaultPrevented = True,
        respondWith = Some \<lparr>accept_calls = [], executor = Threw ''SyntaxError''\<rparr>,
        fetches = []\<rparr>, example_worker)"
    using parsePost_json_failure_is_not_recovered
      [where r = xml_post_request and api = example_platform and e = "''TypeError''"
         and e' = "''SyntaxError''" and sw = example_worker
         and url = "request_url xml_post_request" and evs = "[]"] x
    by blast+
  have b: "parsePost example_platform empty_post_request = Inl ''SyntaxError''"
    using parsePost_json_failure_is_not_recovered
      [where r = empty_post_request and api = example_platform and e = "''TypeError''"
         and e' = "''SyntaxError''"] n
    by blast
  from x n a b forwarded show ?thesis by simp
qed

text \<open>
  Claim C8, what the code does where the claim wants the fetch to fail. When \<open>parsePost\<close>
  fails, or when \<open>awaitReply\<close> times out (no reply for the id that was broadcast while
  25000 milliseconds pass), the exception ends the asynchronous executor, \<open>accept\<close> is never
  called, and the promise given to \<open>event.respondWith\<close> is left pending: it resolves to no
  response, and it is not rejected either.
\<close>

theorem failed_forward_leaves_response_pending:
  "(parsePost api r = Inl e \<longrightarrow>
      respondWith (fst (forward_to_php api sw r url evs)) =
        Some \<lparr>accept_calls = [], executor = Threw e\<rparr>) \<and>
   (parsePost api r = Inr parsed \<and> no_reply_for (requestCounter sw + 1) pre \<and>
    time_passes pre \<and> DEFAULT_RESPONSE_TIMEOUT \<le> elapsed pre \<longrightarrow>
      respondWith (fst (forward_to_php api sw r url (pre @ later))) =
        Some \<lparr>accept_calls = [], executor = Threw ''Request timed out''\<rparr>) \<and>
   respondWith_state \<lparr>accept_calls = [], executor = Threw e\<rparr> = Pending"
proof (intro conjI impI)
  assume "parsePost api r = Inl e"
  then show "respondWith (fst (forward_to_php api sw r url evs)) =
        Some \<lparr>accept_calls = [], executor = Threw e\<rparr>"
    by (simp add: forward_to_php_parse_error)
next
  assume h: "parsePost api r = Inr parsed \<and> no_reply_for (requestCounter sw + 1) pre \<and>
    time_passes pre \<and> DEFAULT_RESPONSE_TIMEOUT \<le> elapsed pre"
  then have "waiters (run (awaitReply (self sw) (requestCounter sw + 1) DEFAULT_RESPONSE_TIMEOUT)
        (pre @ later)) ! length (waiters (self sw)) =
      \<lparr>awaited = requestCounter sw + 1, listening = False, failOntimeout = None,
        settle_calls = [Reject ''Request timed out'']\<rparr>"
    by (intro run_awaitReply_timed_out) simp_all
  then have "promise_of (run (awaitReply (self sw) (requestCounter sw + 1) DEFAULT_RESPONSE_TIMEOUT)
        (pre @ later)) (length (waiters (self sw))) = Rejected ''Request timed out''"
    by (simp add: promise_of_def)
  then show "respondWith (fst (forward_to_php api sw r url (pre @ later))) =
        Some \<lparr>accept_calls = [], executor = Threw ''Request timed out''\<rparr>"
    using h by (simp add: forward_to_php_cases [where parsed = parsed])
next
  show "respondWith_state \<lparr>accept_calls = [], executor = Threw e\<rparr> = Pending"
    by (simp add: respondWith_state_def)
qed

theorem failed_forward_witness:
  "parsePost example_platform index_request = Inr \<lparr>post = Undefined, files = None\<rparr> \<and>
   no_reply_for 1 [Elapse 25000 :: php_response event] \<and>
   time_passes [Elapse 25000 :: php_response event] \<and>
   DEFAULT_RESPONSE_TIMEOUT \<le> elapsed [Elapse 25000 :: php_response event] \<and>
   respondWith (fst (forward_to_php example_platform example_worker index_request
       (request_url index_request) ([Elapse 25000] @ []))) =
     Some \<lparr>accept_calls = [], executor = Threw ''Request timed out''\<rparr> \<and>
   respondWith_state \<lparr>accept_calls = [], executor = Threw ''Request timed out''\<rparr> = Pending \<and>
   fst (fetch_listener None example_platform example_worker index_request [Elapse 25000]) =
     \<lparr>defaultPrevented = True,
      respondWith = Some \<lparr>accept_calls = [], executor = Threw ''Request timed out''\<rparr>,
      fetches = []\<rparr>"
proof -
  have p: "parsePost example_platform index_request = Inr \<lparr>post = Undefined, files = None\<rparr>"
    by (simp add: parsePost_def example_defs)
  have t: "no_reply_for 1 [Elapse 25000 :: php_response event]"
    "time_passes [Elapse 25000 :: php_response event]"
    "DEFAULT_RESPONSE_TIMEOUT \<le> elapsed [Elapse 25000 :: php_response event]"
    by (simp_all add: DEFAULT_RESPONSE_TIMEOUT_def)
  have c: "requestCounter example_worker + 1 = 1" by (simp add: example_worker_def)
  have a: "respondWith (fst (forward_to_php example_platform example_worker index_request
       (request_url index_request) ([Elapse 25000] @ []))) =
     Some \<lparr>accept_calls = [], executor = Threw ''Request timed out''\<rparr>"
    using failed_forward_leaves_response_pending
      [where api = example_platform and r = index_request and sw = example_worker
         and parsed = "\<lparr>post = Undefined, files = None\<rparr>" and pre = "[Elapse 25000]"
         and later = "[]" and url = "request_url index_request"]
      p t c
    by simp
  have b: "respondWith_state \<lparr>accept_calls = [], executor = Threw ''Request timed out''\<rparr> = Pending"
    using failed_forward_leaves_response_pending [where e = "''Request timed out''"] by blast
  have l: "fst (fetch_listener None example_platform example_worker index_request [Elapse 25000]) =
     \<lparr>defaultPrevented = True,
      respondWith = Some \<lparr>accept_calls = [], executor = Threw ''Request timed out''\<rparr>,
      fetches = []\<rparr>"
    by (simp add: listener_defs example_defs)
  from p t a b l show ?thesis by simp
qed

lemma new_Response_made:
  assumes "200 \<le> code" "code \<le> 599" "code \<notin> set [204, 205, 304]"
    and "Headers api given = Inr list"
  shows "new_Response api b given code =
     Inr \<lparr>status = code,
          http_headers =
            (case b of
               Text t \<Rightarrow>
                 if contains_header list ''Content-Type'' then list
                 else list @ [(''Content-Type'', ''text/plain;charset=UTF-8'')]
             | Binary bytes \<Rightarrow> list),
          http_body = body_bytes b\<rparr>"
proof -
  have "code mod 65536 = code" using assms(1,2) by simp
  then show ?thesis
    using assms by (cases b) (simp_all add: new_Response_def Let_def)
qed

text \<open>
  Claim C9, as amended. When a request is forwarded (its URL is scoped, the forwarding
  test holds, \<open>parsePost\<close> succeeds), the first reply for the id that was broadcast arrives
  before the timeout, its \<open>statusCode\<close> lies between 200 and 599 and is none of 204, 205
  and 304, and the platform builds a header list from its \<open>headers\<close>, the listener accepts
  exactly one \<open>Response\<close>: its status is the reply's \<open>statusCode\<close>, also for a server error;
  its body is the reply's \<open>body\<close>; its headers are the list built from the reply's
  \<open>headers\<close>, followed by \<open>Content-Type: text/plain;charset=UTF-8\<close> when the body is a string
  and the list holds no \<open>Content-Type\<close>. Every client was sent the request under that id.
\<close>

theorem reply_becomes_http_response:
  "isURLScoped (resolve_scope api r) \<and>
   shouldForwardRequestToPHPServer config r (removeURLScope (resolve_scope api r)) \<and>
   parsePost api r = Inr parsed \<and>
   no_reply_for (requestCounter sw + 1) pre \<and> elapsed pre < DEFAULT_RESPONSE_TIMEOUT \<and>
   type d = ''response'' \<and> requestId d = Some (requestCounter sw + 1) \<and>
   200 \<le> statusCode (response d) \<and> statusCode (response d) \<le> 599 \<and>
   statusCode (response d) \<notin> set [204, 205, 304] \<and>
   Headers api (headers (response d)) = Inr list \<longrightarrow>
     fst (fetch_listener config api sw r (pre @ Message d # later)) =
       \<lparr>defaultPrevented = True,
        respondWith = Some
          \<lparr>accept_calls =
             [Response
                \<lparr>status = statusCode (response d),
                 http_headers =
                   (case body (response d) of
                      Text t \<Rightarrow>
                        if contains_header list ''Content-Type'' then list
                        else list @ [(''Content-Type'', ''text/plain;charset=UTF-8'')]
                    | Binary bytes \<Rightarrow> list),
                 http_body = body_bytes (body (response d))\<rparr>],
           executor = Completed\<rparr>,
        fetches = []\<rparr> \<and>
     respondWith_state (the (respondWith (fst (fetch_listener config api sw r (pre @ Message d # later))))) =
       Fulfilled (Response
          \<lparr>status = statusCode (response d),
           http_headers =
             (case body (response d) of
                Text t \<Rightarrow>
                  if contains_header list ''Content-Type'' then list
                  else list @ [(''Content-Type'', ''text/plain;charset=UTF-8'')]
              | Binary bytes \<Rightarrow> list),
           http_body = body_bytes (body (response d))\<rparr>) \<and>
     map (message_requestId \<circ> snd)
       (client_messages (snd (fetch_listener config api sw r (pre @ Message d # later)))) =
       map (message_requestId \<circ> snd) (client_messages sw) @
         map (\<lambda>client. Some (requestCounter sw + 1)) (clients sw)"
proof
  assume h: "isURLScoped (resolve_scope api r) \<and>
   shouldForwardRequestToPHPServer config r (removeURLScope (resolve_scope api r)) \<and>
   parsePost api r = Inr parsed \<and>
   no_reply_for (requestCounter sw + 1) pre \<and> elapsed pre < DEFAULT_RESPONSE_TIMEOUT \<and>
   type d = ''response'' \<and> requestId d = Some (requestCounter sw + 1) \<and>
   200 \<le> statusCode (response d) \<and> statusCode (response d) \<le> 599 \<and>
   statusCode (response d) \<notin> set [204, 205, 304] \<and>
   Headers api (headers (response d)) = Inr list"
  let ?evs = "pre @ Message d # later"
  let ?made = "\<lparr>status = statusCode (response d),
      http_headers =
        (case body (response d) of
           Text t \<Rightarrow>
             if contains_header list ''Content-Type'' then list
             else list @ [(''Content-Type'', ''text/plain;charset=UTF-8'')]
         | Binary bytes \<Rightarrow> list),
      http_body = body_bytes (body (response d))\<rparr>"
  have forwarded: "fetch_listener config api sw r ?evs =
      forward_to_php api sw r (resolve_scope api r) ?evs"
    using h by (simp add: fetch_listener_def Let_def)
  have made: "new_Response api (body (response d)) (headers (response d)) (statusCode (response d)) =
      Inr ?made"
    using h by (intro new_Response_made) simp_all
  have "promise_of (run (awaitReply (self sw) (requestCounter sw + 1) DEFAULT_RESPONSE_TIMEOUT) ?evs)
      (length (waiters (self sw))) = Fulfilled (response d)"
    using h by (intro run_awaitReply_resolved) simp_all
  then have first: "fst (fetch_listener config api sw r ?evs) =
       \<lparr>defaultPrevented = True,
        respondWith = Some \<lparr>accept_calls = [Response ?made], executor = Completed\<rparr>,
        fetches = []\<rparr>"
    using h by (simp add: forwarded forward_to_php_cases [where parsed = parsed] made)
  have sent: "map (message_requestId \<circ> snd) (client_messages (snd (fetch_listener config api sw r ?evs))) =
       map (message_requestId \<circ> snd) (client_messages sw) @
         map (\<lambda>client. Some (requestCounter sw + 1)) (clients sw)"
    using h by (simp add: forwarded forward_to_php_messages [where parsed = parsed] comp_def)
  have state: "respondWith_state (the (respondWith (fst (fetch_listener config api sw r ?evs)))) =
       Fulfilled (Response ?made)"
    by (simp add: first respondWith_state_def)
  from first state sent
  show "fst (fetch_listener config api sw r ?evs) =
       \<lparr>defaultPrevented = True,
        respondWith = Some \<lparr>accept_calls = [Response ?made], executor = Completed\<rparr>,
        fetches = []\<rparr> \<and>
     respondWith_state (the (respondWith (fst (fetch_listener config api sw r ?evs)))) =
       Fulfilled (Response ?made) \<and>
     map (message_requestId \<circ> snd) (client_messages (snd (fetch_listener config api sw r ?evs))) =
       map (message_requestId \<circ> snd) (client_messages sw) @
         map (\<lambda>client. Some (requestCounter sw + 1)) (clients sw)"
    by (intro conjI)
qed

theorem reply_becomes_http_response_witness:
  "isURLScoped (resolve_scope example_platform index_request) \<and>
   shouldForwardRequestToPHPServer None index_request
     (removeURLScope (resolve_scope example_platform index_request)) \<and>
   parsePost example_platform index_request = Inr \<lparr>post = Undefined, files = None\<rparr> \<and>
   no_reply_for 1
     [Message (responseTo 7 \<lparr>statusCode = 404, headers = [], body = Text ''no''\<rparr>), Elapse 30] \<and>
   elapsed [Message (responseTo 7 \<lparr>statusCode = 404, headers = [], body = Text ''no''\<rparr>), Elapse 30]
     < DEFAULT_RESPONSE_TIMEOUT \<and>
   Headers example_platform [] = Inr [] \<and>
   Headers example_platform [(''content-type'', ''text/html'')] =
     Inr [(''content-type'', ''text/html'')] \<and>
   fst (fetch_listener None example_platform example_worker index_request
          ([Message (responseTo 7 \<lparr>statusCode = 404, headers = [], body = Text ''no''\<rparr>), Elapse 30] @
             Message (responseTo 1 \<lparr>statusCode = 200, headers = [], body = Text ''hi''\<rparr>) # [])) =
     \<lparr>defaultPrevented = True,
      respondWith = Some
        \<lparr>accept_calls =
           [Response \<lparr>status = 200,
                      http_headers = [(''Content-Type'', ''text/plain;charset=UTF-8'')],
                      http_body = ''hi''\<rparr>],
         executor = Completed\<rparr>,
      fetches = []\<rparr> \<and>
   fst (fetch_listener None example_platform example_worker index_request
          ([] @ Message (responseTo 1
                  \<lparr>statusCode = 500, headers = [(''content-type'', ''text/html'')],
                    body = Text ''Fatal error''\<rparr>) # [])) =
     \<lparr>defaultPrevented = True,
      respondWith = Some
        \<lparr>accept_calls =
           [Response \<lparr>status = 500, http_headers = [(''content-type'', ''text/html'')],
                      http_body = ''Fatal error''\<rparr>],
         executor = Completed\<rparr>,
      fetches = []\<rparr> \<and>
   fst (fetch_listener None example_platform example_worker index_request
          ([] @ Message (responseTo 1
                  \<lparr>statusCode = 200, headers = [], body = Binary ''GIF89a''\<rparr>) # [])) =
     \<lparr>defaultPrevented = True,
      respondWith = Some
        \<lparr>accept_calls = [Response \<lparr>status = 200, http_headers = [], http_body = ''GIF89a''\<rparr>],
         executor = Completed\<rparr>,
      fetches = []\<rparr> \<and>
   client_messages (snd (fetch_listener None example_platform example_worker index_request
          [Message (responseTo 1 \<lparr>statusCode = 200, headers = [], body = Text ''hi''\<rparr>)])) =
     map (\<lambda>client. (client,
            \<lparr>message_type = ''HTTPRequest'', scope = Some ''abc'',
              php_request = \<lparr>path = ''/scope:abc/index.php'', php_method = ''GET'', php_files = None,
                              POST = Undefined, php_headers = Map.empty\<rparr>,
              message_requestId = Some 1\<rparr>)) [0, 1]"
proof -
  have s: "isURLScoped (resolve_scope example_platform index_request)"
    by (simp add: example_defs resolve_scope_def isURLScoped_def)
  have u: "removeURLScope (resolve_scope example_platform index_request) =
      \<lparr>origin = ''http://localhost'', pathname = ''/index.php'', search = [], hash = []\<rparr>"
    by (simp add: example_defs resolve_scope_def isURLScoped_def removeURLScope_def)
  have f: "shouldForwardRequestToPHPServer None index_request
     (removeURLScope (resolve_scope example_platform index_request))"
    by (simp add: u shouldForwardRequestToPHPServer_def seemsLikeAPHPServerPath_def
        seemsLikeAPHPFile_def endsWith_def)
  have p: "parsePost example_platform index_request = Inr \<lparr>post = Undefined, files = None\<rparr>"
    by (simp add: parsePost_def example_defs)
  have c: "requestCounter example_worker + 1 = 1" by (simp add: example_worker_def)
  have t: "no_reply_for 1
      [Message (responseTo 7 \<lparr>statusCode = 404, headers = [], body = Text ''no''\<rparr>), Elapse 30]"
    "elapsed [Message (responseTo 7 \<lparr>statusCode = 404, headers = [], body = Text ''no''\<rparr>), Elapse 30]
       < DEFAULT_RESPONSE_TIMEOUT"
    by (simp_all add: responseTo_def DEFAULT_RESPONSE_TIMEOUT_def)
  have hd: "Headers example_platform [] = Inr []"
    "Headers example_platform [(''content-type'', ''text/html'')] =
       Inr [(''content-type'', ''text/html'')]"
    by (simp_all add: example_platform_def)
  have ct: "\<not> contains_header [] ''Content-Type''"
    "contains_header [(''content-type'', ''text/html'')] ''Content-Type''"
    by (simp_all add: contains_header_def lower_def)
  have a: "fst (fetch_listener None example_platform example_worker index_request
          ([Message (responseTo 7 \<lparr>statusCode = 404, headers = [], body = Text ''no''\<rparr>), Elapse 30] @
             Message (responseTo 1 \<lparr>statusCode = 200, headers = [], body = Text ''hi''\<rparr>) # [])) =
     \<lparr>defaultPrevented = True,
      respondWith = Some
        \<lparr>accept_calls =
           [Response \<lparr>status = 200,
                      http_headers = [(''Content-Type'', ''text/plain;charset=UTF-8'')],
                      http_body = ''hi''\<rparr>],
         executor = Completed\<rparr>,
      fetches = []\<rparr>"
    using reply_becomes_http_response
      [where api = example_platform and r = index_request and config = None
         and sw = example_worker and parsed = "\<lparr>post = Undefined, files = None\<rparr>"
         and pre = "[Message (responseTo 7 \<lparr>statusCode = 404, headers = [], body = Text ''no''\<rparr>),
                     Elapse 30]"
         and d = "responseTo 1 \<lparr>statusCode = 200, headers = [], body = Text ''hi''\<rparr>"
         and later = "[]" and list = "[]"]
      s f p t c hd ct
    by (simp add: responseTo_def)
  have b: "fst (fetch_listener None example_platform example_worker index_request
          ([] @ Message (responseTo 1
                  \<lparr>statusCode = 500, headers = [(''content-type'', ''text/html'')],
                    body = Text ''Fatal error''\<rparr>) # [])) =
     \<lparr>defaultPrevented = True,
      respondWith = Some
        \<lparr>accept_calls =
           [Response \<lparr>status = 500, http_headers = [(''content-type'', ''text/html'')],
                      http_body = ''Fatal error''\<rparr>],
         executor = Completed\<rparr>,
      fetches = []\<rparr>"
    using reply_becomes_http_response
      [where api = example_platform and r = index_request and config = None
         and sw = example_worker and parsed = "\<lparr>post = Undefined, files = None\<rparr>"
         and pre = "[]"
         and d = "responseTo 1 \<lparr>statusCode = 500, headers = [(''content-type'', ''text/html'')],
                    body = Text ''Fatal error''\<rparr>"
         and later = "[]" and list = "[(''content-type'', ''text/html'')]"]
      s f p c hd ct
    by (simp add: responseTo_def DEFAULT_RESPONSE_TIMEOUT_def)
  have g: "fst (fetch_listener None example_platform example_worker index_request
          ([] @ Message (responseTo 1
                  \<lparr>statusCode = 200, headers = [], body = Binary ''GIF89a''\<rparr>) # [])) =
     \<lparr>defaultPrevented = True,
      respondWith = Some
        \<lparr>accept_calls = [Response \<lparr>status = 200, http_headers = [], http_body = ''GIF89a''\<rparr>],
         executor = Completed\<rparr>,
      fetches = []\<rparr>"
    using reply_becomes_http_response
      [where api = example_platform and r = index_request and config = None
         and sw = example_worker and parsed = "\<lparr>post = Undefined, files = None\<rparr>"
         and pre = "[]"
         and d = "responseTo 1 \<lparr>statusCode = 200, headers = [], body = Binary ''GIF89a''\<rparr>"
         and later = "[]" and list = "[]"]
      s f p c hd
    by (simp add: responseTo_def DEFAULT_RESPONSE_TIMEOUT_def)
  have m: "client_messages (snd (fetch_listener None example_platform example_worker index_request
          [Message (responseTo 1 \<lparr>statusCode = 200, headers = [], body = Text ''hi''\<rparr>)])) =
     map (\<lambda>client. (client,
            \<lparr>message_type = ''HTTPRequest'', scope = Some ''abc'',
              php_request = \<lparr>path = ''/scope:abc/index.php'', php_method = ''GET'', php_files = None,
                              POST = Undefined, php_headers = Map.empty\<rparr>,
              message_requestId = Some 1\<rparr>)) [0, 1]"
    by (simp add: listener_defs example_defs)
  from s f p t hd a b g m show ?thesis by (intro conjI) assumption+
qed

text \<open>
  As the claim states it, the response does not always carry the reply's three values. The
  claim's own example, status 200 with no headers and the body \<open>hi\<close>, is answered with the
  header \<open>Content-Type: text/plain;charset=UTF-8\<close>, which the reply did not have. For a
  reply with the status 204, or with the status 600, the constructor throws and no
  response is accepted at all.
\<close>

theorem reply_headers_and_status_counterexample:
  "accept_calls (the (respondWith (fst
      (fetch_listener None example_platform example_worker index_request
         [Message (responseTo 1 \<lparr>statusCode = 200, headers = [], body = Text ''hi''\<rparr>)])))) =
     [Response \<lparr>status = 200,
                http_headers = [(''Content-Type'', ''text/plain;charset=UTF-8'')],
                http_body = ''hi''\<rparr>] \<and>
   respondWith (fst
      (fetch_listener None example_platform example_worker index_request
         [Message (responseTo 1 \<lparr>statusCode = 204, headers = [], body = Text []\<rparr>)])) =
     Some \<lparr>accept_calls = [], executor = Threw ''TypeError''\<rparr> \<and>
   respondWith (fst
      (fetch_listener None example_platform example_worker index_request
         [Message (responseTo 1 \<lparr>statusCode = 600, headers = [], body = Text ''hi''\<rparr>)])) =
     Some \<lparr>accept_calls = [], executor = Threw ''RangeError''\<rparr>"
  by (simp add: listener_defs example_defs)


end
